theory Spec2Isabelle
  imports Main
begin

section \<open>Scratchmark: a shallow embedding of the markdown parser\<close>

text \<open>
  The development follows \<^verbatim>\<open>scratchmark.js\<close> (the file of the repository that defines
  \<^verbatim>\<open>let md = (function () { ... })()\<close>). JavaScript strings are modelled as
  \<^typ>\<open>string\<close> (lists of 8-bit characters, so documents are ASCII/Latin-1 text), arrays
  as lists, a thrown exception as the left injection of a sum type, and every mutation
  of a shared object as explicit state passing.
\<close>

subsection \<open>Errors\<close>

text \<open>
  \<open>Thrown s\<close> is \<^verbatim>\<open>throw s\<close> of the source; \<open>TypeError\<close> and \<open>ReferenceError\<close> are
  the exceptions the JavaScript engine raises (a property read on \<^verbatim>\<open>undefined\<close>, a
  spread of \<^verbatim>\<open>undefined\<close>, a read of an unbound identifier). The last two belong to
  the model only: \<open>OutOfFuel\<close> because the recursive engines carry a step budget, and
  \<open>Unmodelled\<close> for the few situations, none of which a parse can reach, whose
  JavaScript behaviour the model does not represent.
\<close>

datatype error = Thrown string | TypeError | ReferenceError | OutOfFuel | Unmodelled

fun bindE :: "error + 'a \<Rightarrow> ('a \<Rightarrow> error + 'b) \<Rightarrow> error + 'b" where
  "bindE (Inl e) f = Inl e"
| "bindE (Inr x) f = f x"

subsection \<open>Strings\<close>

definition startsWith :: "string \<Rightarrow> string \<Rightarrow> bool" where
  "startsWith s p = (take (length p) s = p)"

definition endsWith :: "string \<Rightarrow> string \<Rightarrow> bool" where
  "endsWith s p = (length p \<le> length s \<and> drop (length s - length p) s = p)"

text \<open>The characters \<^verbatim>\<open>trimRight\<close> and \<^verbatim>\<open>trim\<close> remove: tab, line feed, vertical tab,
  form feed, carriage return, space and the no-break space.\<close>

definition is_white :: "char \<Rightarrow> bool" where
  "is_white c = (c \<in> {CHR 0x09, CHR 0x0A, CHR 0x0B, CHR 0x0C, CHR 0x0D, CHR 0x20, CHR 0xA0})"

definition trimRight :: "string \<Rightarrow> string" where
  "trimRight s = rev (dropWhile is_white (rev s))"

definition trim :: "string \<Rightarrow> string" where
  "trim s = dropWhile is_white (trimRight s)"

text \<open>\<^verbatim>\<open>blankline\<close>: lines have been right trimmed. \<^verbatim>\<open>indented\<close>: the line starts
  with a space.\<close>

definition blankline :: "string \<Rightarrow> bool" where
  "blankline line = (line = [])"

definition indented :: "string \<Rightarrow> bool" where
  "indented line = startsWith line '' ''"

text \<open>\<^verbatim>\<open>grablines(lines, predicate)\<close> removes the longest prefix of lines that satisfy the
  predicate and returns it; the model returns the grabbed lines and the lines left.\<close>

definition grablines :: "string list \<Rightarrow> (string \<Rightarrow> bool) \<Rightarrow> string list \<times> string list" where
  "grablines ls predicate = (takeWhile predicate ls, dropWhile predicate ls)"

subsection \<open>The parser registry\<close>

text \<open>
  \<^verbatim>\<open>class ParserCollection extends Array\<close>: the array part is \<open>parsers\<close>, the
  \<^verbatim>\<open>byname\<close> object is a map. The collection is generic in the parser type; \<open>pname\<close>
  reads a parser's \<^verbatim>\<open>name\<close>. The second argument of \<^verbatim>\<open>add\<close> is optional
  (\<open>None\<close> when the call passes none).
\<close>

record 'p ParserCollection =
  parsers :: "'p list"
  byname :: "string \<Rightarrow> 'p option"

text \<open>\<^verbatim>\<open>findIndex\<close>: the first index whose element satisfies the predicate, \<open>None\<close> for
  JavaScript's \<open>-1\<close>.\<close>

fun findIndex :: "('a \<Rightarrow> bool) \<Rightarrow> 'a list \<Rightarrow> nat option" where
  "findIndex P [] = None"
| "findIndex P (x # xs) =
     (if P x then Some 0 else (case findIndex P xs of None \<Rightarrow> None | Some i \<Rightarrow> Some (Suc i)))"

text \<open>\<^verbatim>\<open>this.splice(idx, 0, parser)\<close>.\<close>

definition splice0 :: "nat \<Rightarrow> 'a \<Rightarrow> 'a list \<Rightarrow> 'a list" where
  "splice0 idx x xs = take idx xs @ x # drop idx xs"

text \<open>\<^verbatim>\<open>if (before)\<close> tests truthiness: an absent argument and the empty string both take
  the \<^verbatim>\<open>else\<close> branch.\<close>

definition add ::
  "('p \<Rightarrow> string) \<Rightarrow> 'p \<Rightarrow> string option \<Rightarrow> 'p ParserCollection \<Rightarrow> error + 'p ParserCollection"
where
  "add pname parser before this =
     (case before of
        None \<Rightarrow>
          Inr (this\<lparr>parsers := parsers this @ [parser],
                    byname := (byname this)(pname parser \<mapsto> parser)\<rparr>)
      | Some b \<Rightarrow>
          if b \<noteq> [] then
            (case findIndex (\<lambda>q. pname q = b) (parsers this) of
               None \<Rightarrow> Inl (Thrown (''no parser called '' @ b))
             | Some idx \<Rightarrow>
                 Inr (this\<lparr>parsers := splice0 idx parser (parsers this),
                           byname := (byname this)(pname parser \<mapsto> parser)\<rparr>))
          else
            Inr (this\<lparr>parsers := parsers this @ [parser],
                      byname := (byname this)(pname parser \<mapsto> parser)\<rparr>))"

subsection \<open>List items\<close>

text \<open>A collected list item \<^verbatim>\<open>{ prefix, lines }\<close>.\<close>

record item =
  prefix :: string
  lines :: "string list"

text \<open>
  \<^verbatim>\<open>list_item(lines, regex, check)\<close>. The regular expression is anchored at the start of
  the line and the source only uses the matched text, so a regex is modelled by the
  function that returns the matched prefix.
\<close>

definition list_item ::
  "string list \<Rightarrow> (string \<Rightarrow> string option) \<Rightarrow> (string \<Rightarrow> bool) \<Rightarrow> item option \<times> string list"
where
  "list_item ls regex check =
     (case ls of
        [] \<Rightarrow> (None, ls)
      | l # rest \<Rightarrow>
          (case regex l of
             None \<Rightarrow> (None, ls)
           | Some p \<Rightarrow>
               if p \<noteq> [] \<and> check p then
                 (let (grabbed, rest') = grablines rest (\<lambda>line. indented line \<or> blankline line)
                  in (Some \<lparr>prefix = p, lines = l # grabbed\<rparr>, rest'))
               else (None, ls)))"

text \<open>\<^verbatim>\<open>line.match(/^ +/)[0].length\<close> counts the leading spaces; the match is
  \<^verbatim>\<open>null\<close> (and the index a TypeError) when there is none.\<close>

definition leading_spaces :: "string \<Rightarrow> nat" where
  "leading_spaces line = length (takeWhile (\<lambda>c. c = CHR '' '') line)"

text \<open>\<^verbatim>\<open>line.replace(new RegExp(`^ {0,${n}}`), '')\<close>: the quantifier is greedy, so up to
  \<open>n\<close> leading spaces go.\<close>

definition strip_spaces :: "nat \<Rightarrow> string \<Rightarrow> string" where
  "strip_spaces n line = drop (min n (leading_spaces line)) line"

text \<open>The inner loop of \<^verbatim>\<open>dedent\<close> over \<^verbatim>\<open>item.lines.slice(1)\<close>.\<close>

fun min_indent :: "nat \<Rightarrow> string list \<Rightarrow> error + nat" where
  "min_indent len [] = Inr len"
| "min_indent len (line # rest) =
     (if \<not> blankline line then
        (if leading_spaces line = 0 then Inl TypeError
         else min_indent (min len (leading_spaces line)) rest)
      else min_indent len rest)"

definition dedent_item :: "item \<Rightarrow> error + item" where
  "dedent_item it =
     (case lines it of
        [] \<Rightarrow> Inl TypeError
      | l0 # rest \<Rightarrow>
          bindE (min_indent (length (prefix it)) rest) (\<lambda>len.
            Inr (it\<lparr>lines := drop (length (prefix it)) l0
                          # map (strip_spaces (if len = 0 then 1 else len)) rest\<rparr>)))"

fun dedent :: "item list \<Rightarrow> error + item list" where
  "dedent [] = Inr []"
| "dedent (it # items) =
     bindE (dedent_item it) (\<lambda>it'. bindE (dedent items) (\<lambda>items'. Inr (it' # items')))"

text \<open>\<^verbatim>\<open>checkloose(items)\<close>.\<close>

definition checkloose :: "item list \<Rightarrow> item list" where
  "checkloose items =
     (if list_ex (\<lambda>it. list_ex blankline (lines it)) items then
        map (\<lambda>it. if lines it = [] \<or> \<not> blankline (last (lines it))
                   then it\<lparr>lines := lines it @ [[]]\<rparr> else it) items
      else items)"

text \<open>\<^verbatim>\<open>deblank(items, lines)\<close>: with more than one item, the blank lines that end the
  last item are popped one by one and put back in front of the input.\<close>

definition deblank :: "item list \<Rightarrow> string list \<Rightarrow> item list \<times> string list" where
  "deblank items ls =
     (if length items > 1 then
        (let it = last items;
             k = length (takeWhile blankline (rev (lines it)));
             n = length (lines it) - k
         in (butlast items @ [it\<lparr>lines := take n (lines it)\<rparr>], drop n (lines it) @ ls))
      else (items, ls))"


subsection \<open>The common collection loop of the two list parsers\<close>

text \<open>
  Both list parsers run the same loop
  \<^verbatim>\<open>while ((item = list_item(lines, this.re, checkmarker))) { style ||= ...; items.push(item) }\<close>
  and differ in the regular expression and in what they call the style of a prefix
  (\<^verbatim>\<open>prefix[0]\<close> for unordered lists, \<^verbatim>\<open>getstyle(prefix)\<close> for ordered ones). The loop
  is written once, over both. \<open>checkmarker\<close> is \<^verbatim>\<open>!style || styleof(prefix) == style\<close>.
\<close>

definition checkmarker :: "(string \<Rightarrow> 's) \<Rightarrow> 's option \<Rightarrow> string \<Rightarrow> bool" where
  "checkmarker styleof style p = (case style of None \<Rightarrow> True | Some st \<Rightarrow> styleof p = st)"

lemma list_item_shorter:
  "list_item ls regex check = (Some it, ls') \<Longrightarrow> length ls' < length ls"
  by (auto simp: list_item_def grablines_def less_Suc_eq_le length_dropWhile_le
           split: list.splits option.splits if_splits)

function collect_items ::
  "(string \<Rightarrow> string option) \<Rightarrow> (string \<Rightarrow> 's) \<Rightarrow> 's option \<Rightarrow> item list \<Rightarrow> string list
     \<Rightarrow> item list \<times> 's option \<times> string list"
where
  "collect_items regex styleof style items ls =
     (case list_item ls regex (checkmarker styleof style) of
        (None, _) \<Rightarrow> (items, style, ls)
      | (Some it, ls') \<Rightarrow>
          collect_items regex styleof
            (case style of None \<Rightarrow> Some (styleof (prefix it)) | Some st \<Rightarrow> Some st)
            (items @ [it]) ls')"
  by pat_completeness auto
termination
  by (relation "measure (\<lambda>(regex, styleof, style, items, ls). length ls)")
     (auto dest: list_item_shorter [OF sym])

declare collect_items.simps [simp del]


subsection \<open>The syntax tree\<close>

text \<open>
  A JavaScript value that can be stored in an attribute or in the \<^verbatim>\<open>key\<close> of a
  footnote citation. Objects created by \<^verbatim>\<open>{}\<close> inherit the members of
  \<^verbatim>\<open>Object.prototype\<close>, so a lookup \<^verbatim>\<open>obj[k]\<close> with \<open>k\<close> a name such as
  \<^verbatim>\<open>constructor\<close> finds a value although no definition stored one: \<open>VInherited k\<close>.
\<close>

datatype jsval = VStr string | VNum nat | VUndefined | VInherited string

text \<open>
  Everything that occurs in the tree. A node is the object
  \<^verbatim>\<open>{name, attributes, children, text, type, key}\<close> (\<open>ntext\<close> is the field \<^verbatim>\<open>text\<close>); a
  field the object does not have is \<open>None\<close>, so \<open>Some []\<close> (an empty
  \<^verbatim>\<open>children\<close> array) differs from \<open>None\<close>. The
  \<^verbatim>\<open>children\<close> of a \<^verbatim>\<open>verbatim\<close> node made from raw HTML lines are strings (\<open>Str\<close>), or
  \<^verbatim>\<open>undefined\<close> when \<^verbatim>\<open>lines.shift()\<close> found no line; the footnote block stores a whole
  array as one child (\<open>Arr\<close>).

  The last field, \<open>nid\<close>, is the identity of the object. It is set on the nodes that the
  source also keeps in \<^verbatim>\<open>footnote_def.cites\<close> and \<^verbatim>\<open>href_def.links\<close> and later changes
  through those arrays; the model finds the node in the tree by it.
\<close>

datatype ast =
    Node (name: string) (attributes: "(string \<times> jsval) list option")
         (children: "ast list option") (ntext: "string option") (type: "string option")
         (key: "jsval option") (nid: "nat option")
  | Str string
  | Undefined
  | Arr "ast list"

definition text_node :: "string \<Rightarrow> ast" where
  "text_node s = Node ''text'' None None (Some s) None None None"

definition element :: "string \<Rightarrow> ast list \<Rightarrow> ast" where
  "element nm cs = Node nm None (Some cs) None None None None"

text \<open>The names \<^verbatim>\<open>Object.prototype\<close> defines.\<close>

definition object_prototype :: "string list" where
  "object_prototype =
     [''constructor'', ''__defineGetter__'', ''__defineSetter__'', ''hasOwnProperty'',
      ''__lookupGetter__'', ''__lookupSetter__'', ''isPrototypeOf'', ''propertyIsEnumerable'',
      ''toString'', ''valueOf'', ''__proto__'', ''toLocaleString'']"

text \<open>An object used as a dictionary: its own properties in insertion order.
  \<open>obj_set\<close> is \<^verbatim>\<open>obj[k] = v\<close>.\<close>

fun obj_set :: "(string \<times> 'v) list \<Rightarrow> string \<Rightarrow> 'v \<Rightarrow> (string \<times> 'v) list" where
  "obj_set [] k v = [(k, v)]"
| "obj_set ((k', v') # kvs) k v = (if k' = k then (k, v) # kvs else (k', v') # obj_set kvs k v)"

subsection \<open>The state of a parse\<close>

text \<open>
  The document-scoped state the source keeps on the parser objects and in the closure:
  \<^verbatim>\<open>footnote_def.defs\<close> and \<^verbatim>\<open>.cites\<close>, \<^verbatim>\<open>href_def.defs\<close> and \<^verbatim>\<open>.links\<close>, and
  \<^verbatim>\<open>config\<close>. \<open>cites\<close> and \<open>links\<close> hold nodes as they were when pushed; \<open>next_id\<close>
  numbers them.
\<close>

record pstate =
  fn_defs :: "(string \<times> string list) list"
  cites :: "ast list"
  href_defs :: "(string \<times> string) list"
  links :: "ast list"
  config :: "(string \<times> jsval) list"
  next_id :: nat

text \<open>What the \<^verbatim>\<open>init\<close> hooks leave.\<close>

definition init :: pstate where
  "init = \<lparr>fn_defs = [], cites = [], href_defs = [], links = [], config = [], next_id = 0\<rparr>"

text \<open>
  Two things the source leaves to the JavaScript engine and the model takes as a
  parameter: whether a string compared with \<^verbatim>\<open>== -1\<close> converts to the number \<open>-1\<close>, and
  the text an inherited member of \<^verbatim>\<open>Object.prototype\<close> converts to.
\<close>

record engine =
  str_eq_minus1 :: "string \<Rightarrow> bool"
  inherited_to_string :: "string \<Rightarrow> string"

text \<open>The two functions a block parser receives, \<^verbatim>\<open>{parse_blocks, parse_inline}\<close>.
  \<^verbatim>\<open>parse_blocks\<close> empties the array it is given, so only the nodes come back.\<close>

record parsers2 =
  parse_blocks :: "string list \<Rightarrow> pstate \<Rightarrow> error + (ast list \<times> pstate)"
  parse_inline :: "string \<Rightarrow> pstate \<Rightarrow> error + (ast list \<times> pstate)"

type_synonym block_result = "error + (ast option \<times> string list \<times> pstate)"

text \<open>\<^verbatim>\<open>items.map(parse_blocks)\<close>, one item after the other.\<close>

fun map_blocks ::
  "(string list \<Rightarrow> pstate \<Rightarrow> error + (ast list \<times> pstate)) \<Rightarrow> string list list \<Rightarrow> pstate
     \<Rightarrow> error + (ast list list \<times> pstate)"
where
  "map_blocks pb [] ps = Inr ([], ps)"
| "map_blocks pb (ls # lss) ps =
     bindE (pb ls ps) (\<lambda>(cs, ps').
       bindE (map_blocks pb lss ps') (\<lambda>(css, ps''). Inr (cs # css, ps'')))"

subsection \<open>Unordered and ordered lists\<close>

text \<open>\<^verbatim>\<open>/^[+*-] /\<close>\<close>

definition unordered_re :: "string \<Rightarrow> string option" where
  "unordered_re line =
     (case line of
        c # d # _ \<Rightarrow> if c \<in> {CHR ''+'', CHR ''*'', CHR ''-''} \<and> d = CHR '' '' then Some [c, d] else None
      | _ \<Rightarrow> None)"

text \<open>\<^verbatim>\<open>let ulclass = { '*': 'star-list', '+': 'plus-list', '-': 'minus-list' }\<close> and the
  lookup \<^verbatim>\<open>ulclass[marker]\<close>.\<close>

definition ulclass :: "char \<Rightarrow> jsval" where
  "ulclass marker =
     (if marker = CHR ''*'' then VStr ''star-list''
      else if marker = CHR ''+'' then VStr ''plus-list''
      else if marker = CHR ''-'' then VStr ''minus-list''
      else VUndefined)"

definition li_nodes :: "ast list list \<Rightarrow> ast list" where
  "li_nodes css = map (\<lambda>cs. element ''li'' cs) css"

text \<open>
  \<^verbatim>\<open>unordered_list.parse\<close>. The marker is \<^verbatim>\<open>item.prefix[0]\<close> of the first item. When no
  item is collected the function returns \<^verbatim>\<open>undefined\<close> and has not touched the lines.
\<close>

definition unordered_list_parse :: "parsers2 \<Rightarrow> string list \<Rightarrow> pstate \<Rightarrow> block_result" where
  "unordered_list_parse P ls ps =
     (case collect_items unordered_re hd None [] ls of (items, marker, ls1) \<Rightarrow>
        (case marker of
           None \<Rightarrow> Inr (None, ls1, ps)
         | Some m \<Rightarrow>
             if items = [] then Inr (None, ls1, ps) else
             (case deblank items ls1 of (items2, ls2) \<Rightarrow>
                bindE (dedent items2) (\<lambda>items3.
                bindE (map_blocks (parse_blocks P) (map lines (checkloose items3)) ps) (\<lambda>(css, ps').
                  Inr (Some (Node ''ul'' (Some [(''class'', ulclass m)]) (Some (li_nodes css))
                               None None None None),
                       ls2, ps'))))))"

text \<open>\<^verbatim>\<open>/^([0-9]+|[a-zA-Z]|[mclxivMCLXIV]+)[).] /\<close>: a run of digits, or one letter, or a
  run of roman-numeral letters, then \<^verbatim>\<open>)\<close> or \<^verbatim>\<open>.\<close>, then a space. The alternatives are
  tried in this order; a run must be maximal, since the character after a shorter run is
  not a closing mark.\<close>

definition is_digit :: "char \<Rightarrow> bool" where
  "is_digit c = (c \<in> set ''0123456789'')"

definition is_letter :: "char \<Rightarrow> bool" where
  "is_letter c = (c \<in> set ''abcdefghijklmnopqrstuvwxyzABCDEFGHIJKLMNOPQRSTUVWXYZ'')"

definition is_roman :: "char \<Rightarrow> bool" where
  "is_roman c = (c \<in> set ''mclxivMCLXIV'')"

definition closes :: "string \<Rightarrow> bool" where
  "closes rest =
     (case rest of c # d # _ \<Rightarrow> c \<in> {CHR '')'', CHR ''.''} \<and> d = CHR '' '' | _ \<Rightarrow> False)"

definition ordered_re :: "string \<Rightarrow> string option" where
  "ordered_re line =
     (let digits = takeWhile is_digit line; roman = takeWhile is_roman line in
      if digits \<noteq> [] \<and> closes (drop (length digits) line)
        then Some (take (length digits + 2) line)
      else if line \<noteq> [] \<and> is_letter (hd line) \<and> closes (tl line)
        then Some (take 3 line)
      else if roman \<noteq> [] \<and> closes (drop (length roman) line)
        then Some (take (length roman + 2) line)
      else None)"

text \<open>\<^verbatim>\<open>getstyle(prefix)\<close>: the numbering class of the first character, then
  \<^verbatim>\<open>prefix.at(-2)\<close>, the closing mark. A prefix shorter than two characters has no
  \<^verbatim>\<open>at(-2)\<close>; \<^verbatim>\<open>orderstyle + undefined\<close> is then the text built here.\<close>

definition getstyle :: "string \<Rightarrow> string" where
  "getstyle p =
     (let endmarker = (if length p \<ge> 2 then [p ! (length p - 2)] else ''undefined'');
          c = (if p = [] then None else Some (hd p));
          orderstyle =
            (if c \<in> Some ` set ''0123456789'' then ''1''
             else if c \<in> Some ` set ''IVMXL'' then ''I''
             else if c \<in> Some ` set ''ivmxl'' then ''i''
             else if c \<in> Some ` set ''ABCDEFGHIJK'' then ''A''
             else ''a'')
      in orderstyle @ endmarker)"

text \<open>\<^verbatim>\<open>ordered_list.parse\<close>. \<^verbatim>\<open>start\<close> is \<^verbatim>\<open>items[0].prefix.slice(0, -2)\<close> and \<^verbatim>\<open>type\<close> is
  \<^verbatim>\<open>style.slice(0, -1)\<close>.\<close>

definition ordered_list_parse :: "parsers2 \<Rightarrow> string list \<Rightarrow> pstate \<Rightarrow> block_result" where
  "ordered_list_parse P ls ps =
     (case collect_items ordered_re getstyle None [] ls of (items, style, ls1) \<Rightarrow>
        (case style of
           None \<Rightarrow> Inr (None, ls1, ps)
         | Some st \<Rightarrow>
             if items = [] then Inr (None, ls1, ps) else
             (let start = butlast (butlast (prefix (hd items))) in
              case deblank items ls1 of (items2, ls2) \<Rightarrow>
                bindE (dedent items2) (\<lambda>items3.
                bindE (map_blocks (parse_blocks P) (map lines (checkloose items3)) ps) (\<lambda>(css, ps').
                  Inr (Some (Node ''ol''
                               (Some [(''start'', VStr start), (''type'', VStr (butlast st))])
                               (Some (li_nodes css)) None None None None),
                       ls2, ps'))))))"


subsection \<open>The other block parsers\<close>

text \<open>Decimal text of a number, as \<^verbatim>\<open>'' + n\<close> gives it.\<close>

fun decimal :: "nat \<Rightarrow> string" where
  "decimal n = (if n < 10 then [''0123456789'' ! n]
                else decimal (n div 10) @ [''0123456789'' ! (n mod 10)])"

declare decimal.simps [simp del]

text \<open>\<^verbatim>\<open>/^#{1,6} /\<close>, and \<^verbatim>\<open>line.replace(/#+$/, '')\<close>.\<close>

definition header_re :: "string \<Rightarrow> string option" where
  "header_re line =
     (let k = length (takeWhile (\<lambda>c. c = CHR ''#'') line) in
      if 1 \<le> k \<and> k \<le> 6 \<and> startsWith (drop k line) '' '' then Some (take (k + 1) line)
      else None)"

definition strip_closing_hashes :: "string \<Rightarrow> string" where
  "strip_closing_hashes line = rev (dropWhile (\<lambda>c. c = CHR ''#'') (rev line))"

text \<open>Every parser that starts with \<^verbatim>\<open>lines[0].match\<close> or \<^verbatim>\<open>lines[0].startsWith\<close> throws
  a TypeError on an empty array; those that write \<^verbatim>\<open>lines[0]?.\<close> return
  \<^verbatim>\<open>undefined\<close>.\<close>

definition header_parse :: "parsers2 \<Rightarrow> string list \<Rightarrow> pstate \<Rightarrow> block_result" where
  "header_parse P ls ps =
     (case ls of
        [] \<Rightarrow> Inl TypeError
      | l # rest \<Rightarrow>
          (case header_re l of
             None \<Rightarrow> Inr (None, ls, ps)
           | Some p \<Rightarrow>
               bindE (parse_inline P (strip_closing_hashes (drop (length p) l)) ps) (\<lambda>(cs, ps').
                 Inr (Some (element (''h'' @ decimal (length p - 1)) cs), rest, ps'))))"

text \<open>\<^verbatim>\<open>line.replace(/^> ?/, '')\<close> on a line that starts with a closing angle bracket.\<close>

definition unquote :: "string \<Rightarrow> string" where
  "unquote line =
     (if startsWith line ''> '' then drop 2 line
      else if startsWith line ''>'' then drop 1 line else line)"

definition blockquote_parse :: "parsers2 \<Rightarrow> string list \<Rightarrow> pstate \<Rightarrow> block_result" where
  "blockquote_parse P ls ps =
     (case grablines ls (\<lambda>line. startsWith line ''>'') of (quoted, rest) \<Rightarrow>
        if length quoted > 0 then
          bindE (parse_blocks P (map unquote quoted) ps) (\<lambda>(cs, ps').
            Inr (Some (element ''blockquote'' cs), rest, ps'))
        else Inr (None, ls, ps))"

definition indented_codeblock_parse :: "parsers2 \<Rightarrow> string list \<Rightarrow> pstate \<Rightarrow> block_result" where
  "indented_codeblock_parse P ls ps =
     (case grablines ls (\<lambda>line. startsWith line ''    '') of (block, rest) \<Rightarrow>
        if length block > 0 then
          Inr (Some (element ''codeblock'' (map (\<lambda>c. text_node (drop 4 c)) block)), rest, ps)
        else Inr (None, ls, ps))"

text \<open>
  The fence handlers: \<^verbatim>\<open>fencehandler.config\<close>, \<^verbatim>\<open>.verbatim\<close> and \<^verbatim>\<open>.omit\<close>, each with a
  \<^verbatim>\<open>parse\<close> method. \<^verbatim>\<open>fenced_codeblock.parse\<close> reaches them by
  \<^verbatim>\<open>fencehandler[type]?.parse?.(children)\<close>. For another type the optional chain stops
  at \<^verbatim>\<open>undefined\<close> (also for the names \<^verbatim>\<open>Object.prototype\<close> defines, none of which has
  a \<^verbatim>\<open>parse\<close>) and the generic code block is built. For one of the three types the
  argument is evaluated, and \<^verbatim>\<open>children\<close> is bound nowhere: not a parameter or a local
  of \<^verbatim>\<open>parse\<close>, not declared in the enclosing function, not a global. The read throws a
  ReferenceError before the handler is entered, so the handler bodies never run and are
  not modelled.
\<close>

definition fencehandler :: "string list" where
  "fencehandler = [''config'', ''verbatim'', ''omit'']"

definition fence :: string where
  "fence = [CHR 0x60, CHR 0x60, CHR 0x60]"

text \<open>\<^verbatim>\<open>c.replace(/^\\```/, '```')\<close>\<close>

definition unescape_fence :: "string \<Rightarrow> string" where
  "unescape_fence c = (if startsWith c (CHR 0x5C # fence) then drop 1 c else c)"

definition fenced_codeblock_parse :: "parsers2 \<Rightarrow> string list \<Rightarrow> pstate \<Rightarrow> block_result" where
  "fenced_codeblock_parse P ls ps =
     (case ls of
        [] \<Rightarrow> Inr (None, ls, ps)
      | l # rest \<Rightarrow>
          if startsWith l fence then
            (let ftype = drop 3 l in
             case grablines rest (\<lambda>line. \<not> startsWith line fence) of (block, rest') \<Rightarrow>
               if ftype \<in> set fencehandler then Inl ReferenceError
               else Inr (Some (Node ''codeblock'' None
                                 (Some (map (\<lambda>c. text_node (unescape_fence c)) block))
                                 None (Some ftype) None None),
                         tl rest', ps))
          else Inr (None, ls, ps))"

definition horizontal_rule_parse :: "parsers2 \<Rightarrow> string list \<Rightarrow> pstate \<Rightarrow> block_result" where
  "horizontal_rule_parse P ls ps =
     (case ls of
        [] \<Rightarrow> Inl TypeError
      | l # rest \<Rightarrow>
          if startsWith l ''***'' \<or> startsWith l ''---'' \<or> startsWith l ''___'' then
            Inr (Some (Node ''hr'' None None None None None None), rest, ps)
          else Inr (None, ls, ps))"

definition omit :: ast where
  "omit = Node ''omit'' None None None None None None"

definition is_alnum :: "char \<Rightarrow> bool" where
  "is_alnum c = (is_letter c \<or> is_digit c)"

text \<open>\<^verbatim>\<open>/^\[\^[a-zA-Z0-9]+\]: */\<close>: the result is the label and the length of the whole
  match, which is the length of \<^verbatim>\<open>prefix\<close>. The label is what
  \<^verbatim>\<open>prefix.trim().slice(2, -2)\<close> extracts.\<close>

definition footnote_re :: "string \<Rightarrow> (string \<times> nat) option" where
  "footnote_re line =
     (if startsWith line ''[^'' then
        (let label = takeWhile is_alnum (drop 2 line);
             rest = drop (2 + length label) line in
         if label \<noteq> [] \<and> startsWith rest '']:''
         then Some (label, 2 + length label + 2 + leading_spaces (drop 2 rest))
         else None)
      else None)"

text \<open>\<^verbatim>\<open>footnote_def.parse\<close>: the definition is stored as the lines of an ordered-list item.\<close>

definition footnote_def_parse :: "parsers2 \<Rightarrow> string list \<Rightarrow> pstate \<Rightarrow> block_result" where
  "footnote_def_parse P ls ps =
     (case ls of
        [] \<Rightarrow> Inl TypeError
      | l # rest \<Rightarrow>
          (case footnote_re l of
             None \<Rightarrow> Inr (None, ls, ps)
           | Some (note, plen) \<Rightarrow>
               (case grablines rest (\<lambda>line. blankline line \<or> indented line) of (grabbed, rest') \<Rightarrow>
                  (let first = drop plen (strip_spaces plen l);
                       others = map (strip_spaces plen) grabbed;
                       cs = (''1) '' @ drop 3 (''   '' @ first)) # map (\<lambda>c. ''   '' @ c) others
                   in Inr (Some omit, rest', ps\<lparr>fn_defs := obj_set (fn_defs ps) note cs\<rparr>)))))"

text \<open>\<^verbatim>\<open>/^\[[A-Za-z0-9]+\]: */\<close>, with the label \<^verbatim>\<open>prefix.slice(1).replace(/\]: *$/, '')\<close>.\<close>

definition href_re :: "string \<Rightarrow> (string \<times> nat) option" where
  "href_re line =
     (if startsWith line ''['' then
        (let label = takeWhile is_alnum (drop 1 line);
             rest = drop (1 + length label) line in
         if label \<noteq> [] \<and> startsWith rest '']:''
         then Some (label, 1 + length label + 2 + leading_spaces (drop 2 rest))
         else None)
      else None)"

definition href_def_parse :: "parsers2 \<Rightarrow> string list \<Rightarrow> pstate \<Rightarrow> block_result" where
  "href_def_parse P ls ps =
     (case ls of
        [] \<Rightarrow> Inl TypeError
      | l # rest \<Rightarrow>
          (case href_re l of
             None \<Rightarrow> Inr (None, ls, ps)
           | Some (note, plen) \<Rightarrow>
               Inr (Some omit, rest, ps\<lparr>href_defs := obj_set (href_defs ps) note (drop plen l)\<rparr>)))"

text \<open>\<^verbatim>\<open>/^<(script|head|!--|!doctype)/i\<close>: the result is the matched text in lower case.\<close>

definition to_lower :: "char \<Rightarrow> char" where
  "to_lower c =
     (case findIndex (\<lambda>u. u = c) ''ABCDEFGHIJKLMNOPQRSTUVWXYZ'' of
        None \<Rightarrow> c
      | Some i \<Rightarrow> ''abcdefghijklmnopqrstuvwxyz'' ! i)"

definition html_groups_re :: "string \<Rightarrow> string option" where
  "html_groups_re line =
     find (\<lambda>p. startsWith (map to_lower line) p) [''<script'', ''<head'', ''<!--'', ''<!doctype'']"

text \<open>\<^verbatim>\<open>line.indexOf(s) == -1\<close> is the negation of \<open>str_includes line s\<close>.\<close>

fun str_includes :: "string \<Rightarrow> string \<Rightarrow> bool" where
  "str_includes [] s = (s = [])"
| "str_includes (c # cs) s = (startsWith (c # cs) s \<or> str_includes cs s)"

definition html_groups_parse :: "parsers2 \<Rightarrow> string list \<Rightarrow> pstate \<Rightarrow> block_result" where
  "html_groups_parse P ls ps =
     (case ls of
        [] \<Rightarrow> Inl TypeError
      | l # rest \<Rightarrow>
          (case html_groups_re l of
             None \<Rightarrow> Inr (None, ls, ps)
           | Some p \<Rightarrow>
               (let close_tag =
                      (if p = ''<!--'' then ''-->''
                       else if p = ''<!doctype'' then ''>''
                       else ''</'' @ drop 1 p @ ''>'')
                in case grablines ls (\<lambda>line. \<not> str_includes line close_tag) of (grabbed, rest') \<Rightarrow>
                     Inr (Some (element ''verbatim''
                                  (map Str grabbed
                                   @ [case rest' of [] \<Rightarrow> Undefined | c # _ \<Rightarrow> Str c])),
                          tl rest', ps))))"

text \<open>\<^verbatim>\<open>/^<\/?[^>]*>$/\<close>: the line starts with an opening angle bracket,
  ends with a closing one and has no other closing one.\<close>

definition html_tags_re :: "string \<Rightarrow> bool" where
  "html_tags_re line =
     (length line \<ge> 2 \<and> hd line = CHR ''<'' \<and> last line = CHR ''>''
      \<and> CHR ''>'' \<notin> set (butlast line))"

definition html_tags_parse :: "parsers2 \<Rightarrow> string list \<Rightarrow> pstate \<Rightarrow> block_result" where
  "html_tags_parse P ls ps =
     (case ls of
        [] \<Rightarrow> Inr (None, ls, ps)
      | l # rest \<Rightarrow>
          if html_tags_re l then Inr (Some (element ''verbatim'' [Str l]), rest, ps)
          else Inr (None, ls, ps))"


subsection \<open>Tables\<close>

text \<open>\<^verbatim>\<open>line.split('|')\<close>\<close>

fun split_on :: "char \<Rightarrow> string \<Rightarrow> string list" where
  "split_on sep [] = [[]]"
| "split_on sep (c # cs) =
     (if c = sep then [] # split_on sep cs
      else (case split_on sep cs of [] \<Rightarrow> [[c]] | f # fs \<Rightarrow> (c # f) # fs))"

text \<open>\<^verbatim>\<open>/^ *:?-+:? *$/\<close>, \<^verbatim>\<open>/^ *:-+/\<close> and \<^verbatim>\<open>/-+: *$/\<close>.\<close>

definition is_alignment_cell :: "string \<Rightarrow> bool" where
  "is_alignment_cell c =
     (let s1 = dropWhile (\<lambda>x. x = CHR '' '') c;
          s2 = (if startsWith s1 '':'' then drop 1 s1 else s1);
          s3 = dropWhile (\<lambda>x. x = CHR ''-'') s2;
          s4 = (if startsWith s3 '':'' then drop 1 s3 else s3)
      in startsWith s2 ''-'' \<and> dropWhile (\<lambda>x. x = CHR '' '') s4 = [])"

definition left_marked :: "string \<Rightarrow> bool" where
  "left_marked c = startsWith (dropWhile (\<lambda>x. x = CHR '' '') c) '':-''"

definition right_marked :: "string \<Rightarrow> bool" where
  "right_marked c = startsWith (dropWhile (\<lambda>x. x = CHR '' '') (rev c)) '':-''"

definition alignment_of :: "string \<Rightarrow> string" where
  "alignment_of c =
     (if left_marked c \<and> right_marked c then ''center''
      else if left_marked c then ''left''
      else if right_marked c then ''right''
      else [])"

text \<open>What \<^verbatim>\<open>table.row\<close> returns: an array of alignments, a \<^verbatim>\<open>tr\<close> node, or
  \<^verbatim>\<open>undefined\<close>.\<close>

datatype row_result = Alignment "string list" | Row ast | NoRow

text \<open>\<^verbatim>\<open>cols.map((c) => ({ name: 'td', children: parse_inline(c) }))\<close>\<close>

fun cells ::
  "(string \<Rightarrow> pstate \<Rightarrow> error + (ast list \<times> pstate)) \<Rightarrow> string list \<Rightarrow> pstate
     \<Rightarrow> error + (ast list \<times> pstate)"
where
  "cells pi [] ps = Inr ([], ps)"
| "cells pi (c # cols) ps =
     bindE (pi c ps) (\<lambda>(cs, ps').
       bindE (cells pi cols ps') (\<lambda>(tds, ps''). Inr (element ''td'' cs # tds, ps'')))"

text \<open>\<^verbatim>\<open>table.row(line, parse_inline, number)\<close> on a line that exists; on
  \<^verbatim>\<open>lines[0]\<close> of an empty array it returns \<^verbatim>\<open>undefined\<close>. \<^verbatim>\<open>c && c.match(...)\<close> is
  false for an empty cell, and \<^verbatim>\<open>every\<close> is true of no cells at all.\<close>

definition row ::
  "(string \<Rightarrow> pstate \<Rightarrow> error + (ast list \<times> pstate)) \<Rightarrow> string \<Rightarrow> nat \<Rightarrow> pstate
     \<Rightarrow> error + (row_result \<times> pstate)"
where
  "row pi line number ps =
     (if startsWith line ''|'' then
        (let cols = butlast (tl (split_on (CHR ''|'') line)) in
         if number \<le> 2 \<and> list_all (\<lambda>c. c \<noteq> [] \<and> is_alignment_cell c) cols
         then Inr (Alignment (map alignment_of cols), ps)
         else bindE (cells pi cols ps) (\<lambda>(tds, ps'). Inr (Row (element ''tr'' tds), ps')))
      else Inr (NoRow, ps))"

text \<open>The loop \<^verbatim>\<open>while ((row = this.row(lines[0], parse_inline, rowcount + 1)))\<close>. Its
  variables are the arguments: \<open>rowcount\<close>, \<open>rows\<close>, \<open>alignment\<close> (\<open>None\<close> while the
  variable is \<^verbatim>\<open>undefined\<close>: the source declares it without a value) and
  \<open>alignedrow\<close>.\<close>

fun table_rows ::
  "(string \<Rightarrow> pstate \<Rightarrow> error + (ast list \<times> pstate)) \<Rightarrow> nat \<Rightarrow> ast list \<Rightarrow> string list option
     \<Rightarrow> int \<Rightarrow> string list \<Rightarrow> pstate
     \<Rightarrow> error + (ast list \<times> string list option \<times> int \<times> string list \<times> pstate)"
where
  "table_rows pi rowcount rows alignment alignedrow [] ps =
     Inr (rows, alignment, alignedrow, [], ps)"
| "table_rows pi rowcount rows alignment alignedrow (l # ls) ps =
     bindE (row pi l (rowcount + 1) ps) (\<lambda>(r, ps').
       case r of
         NoRow \<Rightarrow> Inr (rows, alignment, alignedrow, l # ls, ps')
       | Alignment a \<Rightarrow> table_rows pi (rowcount + 1) rows (Some a) (int (rowcount + 1)) ls ps'
       | Row nd \<Rightarrow> table_rows pi (rowcount + 1) (rows @ [nd]) alignment alignedrow ls ps')"

text \<open>Field updates on a node; other values are left as they are.\<close>

fun set_name :: "string \<Rightarrow> ast \<Rightarrow> ast" where
  "set_name nm (Node n a c t ty k i) = Node nm a c t ty k i"
| "set_name nm x = x"

fun set_attributes :: "(string \<times> jsval) list \<Rightarrow> ast \<Rightarrow> ast" where
  "set_attributes a' (Node n a c t ty k i) = Node n (Some a') c t ty k i"
| "set_attributes a' x = x"

fun set_type :: "string \<Rightarrow> ast \<Rightarrow> ast" where
  "set_type ty' (Node n a c t ty k i) = Node n a c t (Some ty') k i"
| "set_type ty' x = x"

fun map_children :: "(ast list \<Rightarrow> ast list) \<Rightarrow> ast \<Rightarrow> ast" where
  "map_children f (Node n a (Some cs) t ty k i) = Node n a (Some (f cs)) t ty k i"
| "map_children f x = x"

text \<open>The loop over \<^verbatim>\<open>i < alignment.length\<close> for one row:
  \<^verbatim>\<open>if (alignment[i] && row.children[i]) row.children[i].attributes = {style: ...}\<close>.\<close>

fun style_cells :: "string list \<Rightarrow> ast list \<Rightarrow> ast list" where
  "style_cells [] cs = cs"
| "style_cells (a # as) [] = []"
| "style_cells (a # as) (c # cs) =
     (if a \<noteq> [] then set_attributes [(''style'', VStr (''text-align:'' @ a))] c else c)
     # style_cells as cs"

text \<open>\<^verbatim>\<open>table.parse\<close>. The lines the loop shifted stay shifted when the function returns
  \<^verbatim>\<open>false\<close>. \<^verbatim>\<open>alignment.length\<close> on the \<^verbatim>\<open>undefined\<close> variable is a TypeError.\<close>

definition table_parse :: "parsers2 \<Rightarrow> string list \<Rightarrow> pstate \<Rightarrow> block_result" where
  "table_parse P ls ps =
     bindE (table_rows (parse_inline P) 0 [] None (- 1) ls ps)
       (\<lambda>(rows, alignment, alignedrow, ls', ps').
          if length rows = 0 then Inr (None, ls', ps')
          else
            (case alignment of
               None \<Rightarrow> Inl TypeError
             | Some al \<Rightarrow>
                 if length al > 0 then
                   (let styled = map (map_children (style_cells al)) rows;
                        head = (if alignedrow = 2
                                then map_children (map (set_name ''th'')) (hd styled)
                                else hd styled)
                    in Inr (Some (element ''table''
                                    [element ''thead'' [head], element ''tbody'' (tl styled)]),
                            ls', ps'))
                 else
                   Inr (Some (element ''table'' [element ''tbody'' rows]), ls', ps')))"


subsection \<open>The inline engine\<close>

text \<open>\<^verbatim>\<open>noesc\<close>: \<^verbatim>\<open>txt.replaceAll(/\\(?!\\)/g, '')\<close> removes every backslash that is not
  followed by a backslash.\<close>

fun noesc :: "string \<Rightarrow> string" where
  "noesc [] = []"
| "noesc [c] = (if c = CHR 0x5C then [] else [c])"
| "noesc (c # d # cs) =
     (if c = CHR 0x5C \<and> d \<noteq> CHR 0x5C then noesc (d # cs) else c # noesc (d # cs))"

text \<open>
  \<^verbatim>\<open>make_re(txt)\<close> is the regular expression \<^verbatim>\<open>(?<!\\)txt\<close> with the flag \<^verbatim>\<open>g\<close>: the
  literal text, not preceded by a backslash. \<open>re_exec lit text start\<close> is
  \<^verbatim>\<open>re.lastIndex = start; re.exec(text)?.index\<close>: the first such position from \<open>start\<close>
  on, \<open>None\<close> when \<^verbatim>\<open>exec\<close> returns \<^verbatim>\<open>null\<close>. \<open>re_scan\<close> walks the text from position
  \<open>i\<close>, \<open>prev\<close> being the character before it.
\<close>

fun re_scan :: "string \<Rightarrow> char option \<Rightarrow> string \<Rightarrow> nat \<Rightarrow> nat option" where
  "re_scan lit prev [] i = (if lit = [] \<and> prev \<noteq> Some (CHR 0x5C) then Some i else None)"
| "re_scan lit prev (c # cs) i =
     (if startsWith (c # cs) lit \<and> prev \<noteq> Some (CHR 0x5C) then Some i
      else re_scan lit (Some c) cs (Suc i))"

definition re_exec :: "string \<Rightarrow> string \<Rightarrow> nat \<Rightarrow> nat option" where
  "re_exec lit text start =
     (if start > length text then None
      else re_scan lit (if start = 0 then None else Some (text ! (start - 1)))
             (drop start text) start)"

text \<open>\<^verbatim>\<open>text.slice(a, b)\<close> for indices within the text.\<close>

definition slice :: "string \<Rightarrow> nat \<Rightarrow> nat \<Rightarrow> string" where
  "slice s a b = take (b - a) (drop a s)"

text \<open>The scanner state \<^verbatim>\<open>{text, cursor}\<close>. The source passes it by reference and the
  parsers move the cursor; the model returns the state.\<close>

record istate =
  itext :: string
  cursor :: nat

text \<open>\<^verbatim>\<open>grab(state, target, start, end_ok)\<close>; the result \<open>None\<close> is the number \<open>-1\<close>.\<close>

definition grab :: "istate \<Rightarrow> string \<Rightarrow> nat \<Rightarrow> bool \<Rightarrow> string option \<times> istate" where
  "grab st target start end_ok =
     (case re_exec target (itext st) (cursor st + start) of
        Some idx \<Rightarrow> (Some (slice (itext st) (start + cursor st) idx), st\<lparr>cursor := idx\<rparr>)
      | None \<Rightarrow>
          if end_ok then (Some (drop (start + cursor st) (itext st)),
                          st\<lparr>cursor := length (itext st)\<rparr>)
          else (None, st))"

text \<open>\<^verbatim>\<open>x == -1\<close> for what \<^verbatim>\<open>grab\<close> returned: true of the number, and of a string the
  engine converts to it.\<close>

definition eq_minus1 :: "engine \<Rightarrow> string option \<Rightarrow> bool" where
  "eq_minus1 E x = (case x of None \<Rightarrow> True | Some s \<Rightarrow> str_eq_minus1 E s)"

type_synonym inline_fn =
  "istate \<Rightarrow> string option \<Rightarrow> pstate \<Rightarrow> error + (ast list \<times> istate \<times> pstate)"

text \<open>An inline parser \<^verbatim>\<open>{name, indexOf, parse}\<close>. \<^verbatim>\<open>parse(state, parse_inline)\<close>
  returns a node or \<^verbatim>\<open>false\<close>. The terminator given to \<^verbatim>\<open>parse_inline\<close> is always a
  \<^verbatim>\<open>make_re\<close> of a literal, so it is passed as that literal.\<close>

record iparser =
  ip_name :: string
  ip_indexOf :: "string \<Rightarrow> nat \<Rightarrow> nat option"
  ip_parse :: "inline_fn \<Rightarrow> istate \<Rightarrow> pstate \<Rightarrow> error + (ast option \<times> istate \<times> pstate)"

text \<open>\<^verbatim>\<open>delimited(name, startsWith, endsWith)\<close>; every use leaves \<^verbatim>\<open>process\<close> at its
  default, the identity.\<close>

definition delimited :: "string \<Rightarrow> string \<Rightarrow> string \<Rightarrow> iparser" where
  "delimited nm starts ends =
     \<lparr>ip_name = nm,
      ip_indexOf = re_exec starts,
      ip_parse = (\<lambda>pi st ps.
        bindE (pi (st\<lparr>cursor := cursor st + length starts\<rparr>) (Some ends) ps) (\<lambda>(cs, st', ps').
          Inr (Some (element nm cs), st'\<lparr>cursor := cursor st' + length ends\<rparr>, ps')))\<rparr>"

text \<open>\<^verbatim>\<open>capture(name, startsWith, endsWith, process, textfilter)\<close>; \<open>process\<close> may change
  the state of the parse.\<close>

definition capture ::
  "string \<Rightarrow> string \<Rightarrow> string \<Rightarrow> (ast \<Rightarrow> pstate \<Rightarrow> error + (ast \<times> pstate)) \<Rightarrow> (string \<Rightarrow> string)
     \<Rightarrow> iparser"
where
  "capture nm starts ends process textfilter =
     \<lparr>ip_name = nm,
      ip_indexOf = re_exec starts,
      ip_parse = (\<lambda>pi st ps.
        case grab (st\<lparr>cursor := cursor st + length starts\<rparr>) ends 0 True of (t, st') \<Rightarrow>
          (case t of
             None \<Rightarrow> Inl TypeError
           | Some s \<Rightarrow>
               bindE (process (element nm [text_node (textfilter s)]) ps) (\<lambda>(nd, ps').
                 Inr (Some nd, st'\<lparr>cursor := cursor st' + length ends\<rparr>, ps'))))\<rparr>"

definition no_process :: "ast \<Rightarrow> pstate \<Rightarrow> error + (ast \<times> pstate)" where
  "no_process nd ps = Inr (nd, ps)"

text \<open>The \<^verbatim>\<open>process\<close> of the footnote citation: the captured node becomes
  \<^verbatim>\<open>sup\<close> around an \<^verbatim>\<open>a\<close> with the label as \<^verbatim>\<open>key\<close>, and the \<^verbatim>\<open>a\<close> is pushed on
  \<^verbatim>\<open>footnote_def.cites\<close>.\<close>

fun footnote_cite_process :: "ast \<Rightarrow> pstate \<Rightarrow> error + (ast \<times> pstate)" where
  "footnote_cite_process (Node n a (Some (Node cn ca cc (Some t) cty ck ci # cs)) tx ty k i) ps =
     (let a_node = Node ''a'' (Some []) (Some (Node cn ca cc (Some t) cty ck ci # cs)) None None
                     (Some (VStr (noesc t))) (Some (next_id ps))
      in Inr (element ''sup'' [a_node],
              ps\<lparr>cites := cites ps @ [a_node], next_id := Suc (next_id ps)\<rparr>))"
| "footnote_cite_process x ps = Inl TypeError"

text \<open>The link parser. The test \<^verbatim>\<open>state.cursor == state.length\<close> compares with a property
  the state does not have and is never true, so it has no branch here.\<close>

definition a_parser :: "engine \<Rightarrow> iparser" where
  "a_parser E =
     \<lparr>ip_name = ''a'',
      ip_indexOf = re_exec ''['',
      ip_parse = (\<lambda>pi st ps.
        bindE (pi (st\<lparr>cursor := cursor st + 1\<rparr>) (Some '']('') ps) (\<lambda>(cs, st1, ps1).
          case grab st1 '')'' 2 False of (href, st2) \<Rightarrow>
            if eq_minus1 E href then Inr (None, st2\<lparr>cursor := cursor st\<rparr>, ps1)
            else
              (case href of
                 None \<Rightarrow> Inr (None, st2\<lparr>cursor := cursor st\<rparr>, ps1)
               | Some h \<Rightarrow>
                   (let node = Node ''a'' (Some [(''href'', VStr (noesc h))])
                                 (Some (if length cs = 0 then [text_node (noesc h)] else cs))
                                 None None None (Some (next_id ps1))
                    in Inr (Some node, st2\<lparr>cursor := cursor st2 + 1\<rparr>,
                            ps1\<lparr>links := links ps1 @ [node], next_id := Suc (next_id ps1)\<rparr>)))))\<rparr>"

definition img_parser :: "engine \<Rightarrow> iparser" where
  "img_parser E =
     \<lparr>ip_name = ''img'',
      ip_indexOf = re_exec ''!['',
      ip_parse = (\<lambda>pi st ps.
        case grab (st\<lparr>cursor := cursor st + 2\<rparr>) '']('' 0 False of (alt, st1) \<Rightarrow>
          if eq_minus1 E alt then Inr (None, st1\<lparr>cursor := cursor st\<rparr>, ps)
          else
            (case grab st1 '')'' 2 False of (src, st2) \<Rightarrow>
               if eq_minus1 E src then Inr (None, st2\<lparr>cursor := cursor st\<rparr>, ps)
               else
                 (case (src, alt) of
                    (Some s, Some al) \<Rightarrow>
                      (let node = Node ''img'' (Some [(''src'', VStr (noesc s)), (''alt'', VStr (noesc al))])
                                    None None None None (Some (next_id ps))
                       in Inr (Some node, st2\<lparr>cursor := cursor st2 + 1\<rparr>,
                               ps\<lparr>links := links ps @ [node], next_id := Suc (next_id ps)\<rparr>))
                  | _ \<Rightarrow> Inr (None, st2\<lparr>cursor := cursor st\<rparr>, ps))))\<rparr>"

text \<open>The registry \<^verbatim>\<open>inlineparsers\<close>, in the order of the \<^verbatim>\<open>inlineparsers.add\<close> calls.\<close>

definition inlineparsers :: "engine \<Rightarrow> iparser list" where
  "inlineparsers E =
     [delimited ''strong'' ''**'' ''**'',
      delimited ''em'' ''*'' ''*'',
      delimited ''strong'' ''__'' ''__'',
      delimited ''em'' ''_'' ''_'',
      delimited ''sup'' ''^'' ''^'',
      delimited ''sub'' ''~'' ''~'',
      capture ''code'' [CHR 0x60] [CHR 0x60] no_process noesc,
      capture ''footnote_cite'' ''[^'' '']'' footnote_cite_process noesc,
      a_parser E,
      img_parser E]"

text \<open>\<^verbatim>\<open>ender.indexOf\<close>: the end of the text without a terminator, else the next match of
  the terminator, or the end of the text when there is none.\<close>

definition ender_indexOf :: "string option \<Rightarrow> string \<Rightarrow> nat \<Rightarrow> nat" where
  "ender_indexOf e text start =
     (case e of
        None \<Rightarrow> length text
      | Some lit \<Rightarrow> (case re_exec lit text start of Some i \<Rightarrow> i | None \<Rightarrow> length text))"

text \<open>The \<^verbatim>\<open>for\<close> loop over \<^verbatim>\<open>currentparsers\<close>: the nearest match so far (\<open>idx\<close>, and
  \<open>first\<close>, \<open>None\<close> while it is the \<^verbatim>\<open>ender\<close>), and the parsers that stay.\<close>

fun nearest ::
  "iparser list \<Rightarrow> string \<Rightarrow> nat \<Rightarrow> nat \<Rightarrow> iparser option \<Rightarrow> nat \<times> iparser option \<times> iparser list"
where
  "nearest [] text cur idx first = (idx, first, [])"
| "nearest (p # ps) text cur idx first =
     (case ip_indexOf p text cur of
        None \<Rightarrow> nearest ps text cur idx first
      | Some idxp \<Rightarrow>
          (case nearest ps text cur (if idxp < idx then idxp else idx)
                  (if idxp < idx then Some p else first) of
             (idx', first', kept) \<Rightarrow> (idx', first', p # kept)))"

text \<open>
  \<^verbatim>\<open>parse_inline(state, endsWith)\<close>: \<open>inline_loop\<close> is the \<^verbatim>\<open>while\<close> loop, with the
  variables \<^verbatim>\<open>currentparsers\<close> and \<^verbatim>\<open>ast\<close> as arguments; each return sets
  \<^verbatim>\<open>type = 'inline'\<close> on the nodes of \<^verbatim>\<open>ast\<close>. One unit of fuel is spent per iteration and
  per nested call.
\<close>

fun inline_loop ::
  "engine \<Rightarrow> nat \<Rightarrow> string option \<Rightarrow> iparser list \<Rightarrow> ast list \<Rightarrow> istate \<Rightarrow> pstate
     \<Rightarrow> error + (ast list \<times> istate \<times> pstate)"
where
  "inline_loop E 0 e cps ast st ps = Inl OutOfFuel"
| "inline_loop E (Suc n) e cps ast st ps =
     (if cursor st < length (itext st) then
        (case nearest cps (itext st) (cursor st) (ender_indexOf e (itext st) (cursor st)) None of
           (idx, first, cps') \<Rightarrow>
             (let ast1 = (if idx > cursor st
                          then ast @ [text_node (noesc (slice (itext st) (cursor st) idx))]
                          else ast);
                  st1 = (if idx > cursor st then st\<lparr>cursor := idx\<rparr> else st)
              in case first of
                   None \<Rightarrow> Inr (map (set_type ''inline'') ast1, st1, ps)
                 | Some p \<Rightarrow>
                     bindE (ip_parse p
                              (\<lambda>st' e' ps'. inline_loop E n e' (inlineparsers E) [] st' ps')
                              st1 ps)
                       (\<lambda>(node, st2, ps2).
                          case node of
                            Some nd \<Rightarrow> inline_loop E n e cps' (ast1 @ [nd]) st2 ps2
                          | None \<Rightarrow>
                              if cursor st2 < length (itext st2) then
                                inline_loop E n e cps'
                                  (ast1 @ [text_node (noesc [itext st2 ! cursor st2])])
                                  (st2\<lparr>cursor := Suc (cursor st2)\<rparr>) ps2
                              else Inl TypeError)))
      else Inr (map (set_type ''inline'') ast, st, ps))"

definition parse_inline_at :: "engine \<Rightarrow> nat \<Rightarrow> inline_fn" where
  "parse_inline_at E n st e ps = inline_loop E n e (inlineparsers E) [] st ps"

text \<open>\<^verbatim>\<open>parse_inline(text)\<close> with a string: a fresh state, no terminator.\<close>

definition parse_inline_text ::
  "engine \<Rightarrow> nat \<Rightarrow> string \<Rightarrow> pstate \<Rightarrow> error + (ast list \<times> pstate)"
where
  "parse_inline_text E n s ps =
     bindE (parse_inline_at E n \<lparr>itext = s, cursor = 0\<rparr> None ps) (\<lambda>(ast, st, ps'). Inr (ast, ps'))"


subsection \<open>The block engine\<close>

text \<open>A block parser \<^verbatim>\<open>{name, parse}\<close>; \<^verbatim>\<open>parse(lines, {parse_blocks, parse_inline})\<close>
  returns the node (or nothing) and leaves the array \<^verbatim>\<open>lines\<close> changed or not.\<close>

record bparser =
  bp_name :: string
  bp_parse :: "parsers2 \<Rightarrow> string list \<Rightarrow> pstate \<Rightarrow> block_result"

text \<open>The registry \<^verbatim>\<open>blockparsers\<close>, in the order of the \<^verbatim>\<open>blockparsers.add\<close> calls.\<close>

definition blockparsers :: "bparser list" where
  "blockparsers =
     [\<lparr>bp_name = ''header'', bp_parse = header_parse\<rparr>,
      \<lparr>bp_name = ''blockquote'', bp_parse = blockquote_parse\<rparr>,
      \<lparr>bp_name = ''indented_codeblock'', bp_parse = indented_codeblock_parse\<rparr>,
      \<lparr>bp_name = ''fenced_codeblock'', bp_parse = fenced_codeblock_parse\<rparr>,
      \<lparr>bp_name = ''unordered_list'', bp_parse = unordered_list_parse\<rparr>,
      \<lparr>bp_name = ''ordered_list'', bp_parse = ordered_list_parse\<rparr>,
      \<lparr>bp_name = ''horizontal_rule'', bp_parse = horizontal_rule_parse\<rparr>,
      \<lparr>bp_name = ''footnote_def'', bp_parse = footnote_def_parse\<rparr>,
      \<lparr>bp_name = ''href_def'', bp_parse = href_def_parse\<rparr>,
      \<lparr>bp_name = ''html_groups'', bp_parse = html_groups_parse\<rparr>,
      \<lparr>bp_name = ''html_tags'', bp_parse = html_tags_parse\<rparr>,
      \<lparr>bp_name = ''table'', bp_parse = table_parse\<rparr>]"

text \<open>The loop \<^verbatim>\<open>for (let bp of blockparsers) { if ((node = bp.parse(lines, ...))) break }\<close>.\<close>

fun try_parsers :: "bparser list \<Rightarrow> parsers2 \<Rightarrow> string list \<Rightarrow> pstate \<Rightarrow> block_result" where
  "try_parsers [] P ls ps = Inr (None, ls, ps)"
| "try_parsers (bp # bps) P ls ps =
     bindE (bp_parse bp P ls ps) (\<lambda>(node, ls', ps').
       case node of
         Some nd \<Rightarrow> Inr (Some nd, ls', ps')
       | None \<Rightarrow> try_parsers bps P ls' ps')"

text \<open>\<^verbatim>\<open>text.join('\n')\<close>\<close>

fun join :: "string \<Rightarrow> string list \<Rightarrow> string" where
  "join sep [] = []"
| "join sep [x] = x"
| "join sep (x # y # ys) = x @ sep @ join sep (y # ys)"

text \<open>
  \<^verbatim>\<open>push_text(name)\<close>, the local function of \<^verbatim>\<open>parse_blocks\<close>, with the variables it
  shares with the loop as arguments and results: \<^verbatim>\<open>lines\<close>, \<^verbatim>\<open>text\<close> and \<^verbatim>\<open>ast\<close>. With
  \<^verbatim>\<open>'p'\<close> it is only called after a line was pushed on \<^verbatim>\<open>text\<close>.
\<close>

definition push_text ::
  "(string \<Rightarrow> pstate \<Rightarrow> error + (ast list \<times> pstate)) \<Rightarrow> string \<Rightarrow> string list \<Rightarrow> string list
     \<Rightarrow> ast list \<Rightarrow> pstate \<Rightarrow> error + (string list \<times> string list \<times> ast list \<times> pstate)"
where
  "push_text pi nm ls text ast ps =
     (if nm = ''p'' \<and> text = [] then Inl Unmodelled
      else
        (let ls1 = (if nm = ''p'' then last text # ls else ls);
             text1 = (if nm = ''p'' then butlast text else text)
         in if length text1 = 0 then Inr (ls1, text1, ast, ps)
            else
              bindE (pi (join [CHR 0x0A] text1) ps) (\<lambda>(cs, ps').
                Inr (ls1, [], (if nm = ''p'' then ast @ [element ''p'' cs] else ast @ cs), ps'))))"

text \<open>
  \<^verbatim>\<open>parse_blocks(lines)\<close>: \<open>blocks_loop\<close> is the \<^verbatim>\<open>while\<close> loop and what follows it, with
  \<^verbatim>\<open>text\<close> and \<^verbatim>\<open>ast\<close> as arguments. One unit of fuel is spent per iteration and per
  nested call. When the table parser has emptied the array and returned \<^verbatim>\<open>false\<close>,
  \<^verbatim>\<open>lines[0]\<close> is \<^verbatim>\<open>undefined\<close>, which is not blank, and \<^verbatim>\<open>text.push(lines.shift())\<close>
  pushes \<^verbatim>\<open>undefined\<close>; \<^verbatim>\<open>join\<close> prints that element as the empty string, which stands
  for it in \<open>text\<close>.
\<close>

fun blocks_loop ::
  "engine \<Rightarrow> nat \<Rightarrow> string list \<Rightarrow> string list \<Rightarrow> ast list \<Rightarrow> pstate
     \<Rightarrow> error + (ast list \<times> pstate)"
where
  "blocks_loop E 0 ls text ast ps = Inl OutOfFuel"
| "blocks_loop E (Suc n) ls text ast ps =
     (if length ls > 0 then
        bindE (try_parsers blockparsers
                 \<lparr>parse_blocks = (\<lambda>ls' ps'. blocks_loop E n ls' [] [] ps'),
                  parse_inline = parse_inline_text E n\<rparr> ls ps)
          (\<lambda>(node, ls1, ps1).
             case node of
               Some nd \<Rightarrow>
                 if name nd \<noteq> ''omit'' then
                   bindE (push_text (parse_inline_text E n) ''textblock'' ls1 text ast ps1)
                     (\<lambda>(ls2, text2, ast2, ps2). blocks_loop E n ls2 text2 (ast2 @ [nd]) ps2)
                 else blocks_loop E n ls1 text ast ps1
             | None \<Rightarrow>
                 (case ls1 of
                    [] \<Rightarrow> blocks_loop E n [] (text @ [[]]) ast ps1
                  | l # rest \<Rightarrow>
                      if blankline l then
                        (if length text > 0 then
                           bindE (push_text (parse_inline_text E n) ''p'' rest (text @ [l]) ast ps1)
                             (\<lambda>(ls2, text2, ast2, ps2). blocks_loop E n ls2 text2 ast2 ps2)
                         else blocks_loop E n rest text (ast @ [text_node l]) ps1)
                      else blocks_loop E n rest (text @ [l]) ast ps1))
      else if length text > 0 then
        bindE (push_text (parse_inline_text E n) ''textblock'' ls text ast ps)
          (\<lambda>(ls2, text2, ast2, ps2). Inr (ast2, ps2))
      else Inr (ast, ps))"

definition parse_blocks_at ::
  "engine \<Rightarrow> nat \<Rightarrow> string list \<Rightarrow> pstate \<Rightarrow> error + (ast list \<times> pstate)"
where
  "parse_blocks_at E n ls ps = blocks_loop E n ls [] [] ps"

subsection \<open>Deferred resolution\<close>

text \<open>Conversions of a value: to text (\<^verbatim>\<open>'' + v\<close>, a template, a property key) and to a
  truth value.\<close>

definition to_string :: "engine \<Rightarrow> jsval \<Rightarrow> string" where
  "to_string E v =
     (case v of
        VStr s \<Rightarrow> s
      | VNum n \<Rightarrow> decimal n
      | VUndefined \<Rightarrow> ''undefined''
      | VInherited k \<Rightarrow> inherited_to_string E k)"

definition truthy :: "jsval \<Rightarrow> bool" where
  "truthy v =
     (case v of VStr s \<Rightarrow> s \<noteq> [] | VNum n \<Rightarrow> n \<noteq> 0 | VUndefined \<Rightarrow> False | VInherited k \<Rightarrow> True)"

text \<open>\<^verbatim>\<open>obj[k]\<close> on an object made by \<^verbatim>\<open>{}\<close>: an own property, else an inherited member,
  else \<^verbatim>\<open>undefined\<close>. \<open>conv\<close> turns a stored value into a \<^typ>\<open>jsval\<close>.\<close>

definition obj_get :: "('v \<Rightarrow> jsval) \<Rightarrow> (string \<times> 'v) list \<Rightarrow> string \<Rightarrow> jsval" where
  "obj_get conv obj k =
     (case map_of obj k of
        Some v \<Rightarrow> conv v
      | None \<Rightarrow> if k \<in> set object_prototype then VInherited k else VUndefined)"

text \<open>A change made through a reference held in \<^verbatim>\<open>cites\<close> or \<^verbatim>\<open>links\<close>: the object with
  that identity, wherever it is in the tree, is changed; an object that is in no tree
  (the parse that made it was abandoned) changes nothing.\<close>

fun update_nid :: "nat \<Rightarrow> (ast \<Rightarrow> ast) \<Rightarrow> ast \<Rightarrow> ast" where
  "update_nid i f (Node n a c t ty k j) =
     (if j = Some i then f (Node n a c t ty k j)
      else Node n a (map_option (map (update_nid i f)) c) t ty k j)"
| "update_nid i f (Arr xs) = Arr (map (update_nid i f) xs)"
| "update_nid i f (Str s) = Str s"
| "update_nid i f Undefined = Undefined"

text \<open>What the loop of \<^verbatim>\<open>footnote_def.postprocess\<close> does to one citation, given the value
  \<open>v\<close> of \<^verbatim>\<open>tonumbers[cite.key]\<close>:
  \<^verbatim>\<open>cite.key = v; cite.attributes.href = `#footnote_${v}`; cite.children[0].text = '' + v\<close>.
  The nodes on \<^verbatim>\<open>cites\<close> are those \<open>footnote_cite_process\<close> builds: they have attributes
  and a first child.\<close>

fun resolve_cite :: "engine \<Rightarrow> jsval \<Rightarrow> ast \<Rightarrow> ast" where
  "resolve_cite E v (Node n (Some a) (Some (Node cn ca cc ct cty ck ci # cs)) t ty k i) =
     Node n (Some (obj_set a ''href'' (VStr (''#footnote_'' @ to_string E v))))
       (Some (Node cn ca cc (Some (to_string E v)) cty ck ci # cs)) t ty (Some v) i"
| "resolve_cite E v x = x"

text \<open>The loop over \<^verbatim>\<open>this.cites\<close>, with \<^verbatim>\<open>i\<close> and \<^verbatim>\<open>tonumbers\<close> as arguments. A label
  that names a member of \<^verbatim>\<open>Object.prototype\<close> finds that member in the fresh
  \<^verbatim>\<open>tonumbers\<close>, which is truthy, and gets no number.\<close>

fun number_cites ::
  "engine \<Rightarrow> ast list \<Rightarrow> nat \<Rightarrow> (string \<times> nat) list \<Rightarrow> ast list
     \<Rightarrow> error + (nat \<times> (string \<times> nat) list \<times> ast list)"
where
  "number_cites E [] i tonumbers ast = Inr (i, tonumbers, ast)"
| "number_cites E (cite # rest) i tonumbers ast =
     (case (key cite, nid cite) of
        (Some (VStr k), Some j) \<Rightarrow>
          (let fresh = \<not> truthy (obj_get VNum tonumbers k);
               tonumbers' = (if fresh then obj_set tonumbers k i else tonumbers);
               i' = (if fresh then i + 1 else i);
               v = obj_get VNum tonumbers' k
           in number_cites E rest i' tonumbers' (map (update_nid j (resolve_cite E v)) ast))
      | _ \<Rightarrow> Inl Unmodelled)"

text \<open>\<^verbatim>\<open>for (let j = 1; j < i; j++) defs.push(...this.defs[tonumbers[j]])\<close> after
  \<^verbatim>\<open>tonumbers\<close> was inverted. A label without a definition gives
  \<^verbatim>\<open>this.defs[label] = undefined\<close>, and spreading it is a TypeError.\<close>

fun collect_defs ::
  "(string \<times> string list) list \<Rightarrow> (string \<times> nat) list \<Rightarrow> nat list \<Rightarrow> error + string list"
where
  "collect_defs defs tonumbers [] = Inr []"
| "collect_defs defs tonumbers (j # js) =
     (let label = (case find (\<lambda>(k, n). n = j) tonumbers of Some (k, n) \<Rightarrow> k | None \<Rightarrow> ''undefined'')
      in case map_of defs label of
           None \<Rightarrow> Inl TypeError
         | Some ls \<Rightarrow> bindE (collect_defs defs tonumbers js) (\<lambda>rest. Inr (ls @ rest)))"

text \<open>\<^verbatim>\<open>defs[0].children[i].attributes = { id: 'footnote_' + (i + 1) }\<close> for every \<open>i\<close>.\<close>

fun number_items :: "nat \<Rightarrow> ast list \<Rightarrow> error + ast list" where
  "number_items i [] = Inr []"
| "number_items i (Undefined # cs) = Inl TypeError"
| "number_items i (c # cs) =
     bindE (number_items (i + 1) cs) (\<lambda>cs'.
       Inr (set_attributes [(''id'', VStr (''footnote_'' @ decimal (i + 1)))] c # cs'))"

definition footnote_def_postprocess ::
  "engine \<Rightarrow> (string list \<Rightarrow> pstate \<Rightarrow> error + (ast list \<times> pstate)) \<Rightarrow> ast list \<Rightarrow> pstate
     \<Rightarrow> error + (ast list \<times> pstate)"
where
  "footnote_def_postprocess E pb ast ps =
     bindE (number_cites E (cites ps) 1 [] ast) (\<lambda>(i, tonumbers, ast1).
     bindE (collect_defs (fn_defs ps) tonumbers [1..<i]) (\<lambda>def_lines.
     bindE (pb def_lines ps) (\<lambda>(defs, ps1).
       case defs of
         [] \<Rightarrow> Inr (ast1, ps1)
       | d # ds \<Rightarrow>
           (case d of
              Node n a (Some cs) t ty k j \<Rightarrow>
                bindE (number_items 0 cs) (\<lambda>cs'.
                  Inr (ast1 @ [Node ''div'' (Some [(''class'', VStr ''footnotes'')])
                                  (Some [Arr (Node n a (Some cs') t ty k j # ds)])
                                  None None None None],
                       ps1))
            | _ \<Rightarrow> Inl TypeError))))"

text \<open>\<^verbatim>\<open>href_def.postprocess\<close> for one node of \<^verbatim>\<open>this.links\<close>; \<^verbatim>\<open>a || b\<close> is \<open>a\<close> when
  \<open>a\<close> is truthy.\<close>

definition attr_get :: "(string \<times> jsval) list \<Rightarrow> string \<Rightarrow> jsval" where
  "attr_get a k = obj_get (\<lambda>v. v) a k"

fun resolve_link :: "engine \<Rightarrow> (string \<times> string) list \<Rightarrow> ast \<Rightarrow> ast" where
  "resolve_link E defs (Node n (Some a) c t ty k i) =
     (let which = (if truthy (attr_get a ''href'') then ''href'' else ''src'');
          old = attr_get a which;
          found = obj_get VStr defs (to_string E old)
      in Node n (Some (obj_set a which (if truthy found then found else old))) c t ty k i)"
| "resolve_link E defs x = x"

fun href_def_postprocess :: "engine \<Rightarrow> (string \<times> string) list \<Rightarrow> ast list \<Rightarrow> ast list \<Rightarrow> ast list"
where
  "href_def_postprocess E defs [] ast = ast"
| "href_def_postprocess E defs (node # rest) ast =
     href_def_postprocess E defs rest
       (case nid node of
          Some j \<Rightarrow> map (update_nid j (resolve_link E defs)) ast
        | None \<Rightarrow> ast)"

subsection \<open>The top level up to the printer\<close>

text \<open>\<^verbatim>\<open>lines.replace('\t', '    ')\<close> replaces the first tab only.\<close>

fun replace_first_tab :: "string \<Rightarrow> string" where
  "replace_first_tab [] = []"
| "replace_first_tab (c # cs) = (if c = CHR 0x09 then ''    '' @ cs else c # replace_first_tab cs)"

text \<open>\<^verbatim>\<open>.split(/\r?\n/)\<close>\<close>

fun split_lines :: "string \<Rightarrow> string list" where
  "split_lines [] = [[]]"
| "split_lines [c] = (if c = CHR 0x0A then [[], []] else [[c]])"
| "split_lines (c # d # cs) =
     (if c = CHR 0x0D \<and> d = CHR 0x0A then [] # split_lines cs
      else if c = CHR 0x0A then [] # split_lines (d # cs)
      else (case split_lines (d # cs) of [] \<Rightarrow> [[c]] | f # fs \<Rightarrow> (c # f) # fs))"

text \<open>The loop that joins a line ending in a backslash with the next one; \<open>joined\<close> is
  never empty.\<close>

fun join_continuations :: "string list \<Rightarrow> string list \<Rightarrow> string list" where
  "join_continuations joined [] = joined"
| "join_continuations joined (line # rest) =
     (if joined \<noteq> [] \<and> endsWith (last joined) [CHR 0x5C]
      then join_continuations (butlast joined @ [butlast (last joined) @ line]) rest
      else join_continuations (joined @ [line]) rest)"

definition normalize :: "string \<Rightarrow> string list" where
  "normalize doc =
     (case map trimRight (split_lines (replace_first_tab doc)) of
        [] \<Rightarrow> []
      | l # ls \<Rightarrow> map trimRight (join_continuations [l] ls))"

text \<open>
  \<^verbatim>\<open>scratchmark\<close> up to the call of the printer: the lines are normalised, the
  \<^verbatim>\<open>init\<close> hooks reset the state, no preprocessor is registered, \<^verbatim>\<open>parse_blocks\<close> runs,
  and the \<^verbatim>\<open>postprocess\<close> hooks run in registry order. No inline parser has a
  \<^verbatim>\<open>postprocess\<close>; of the block parsers \<^verbatim>\<open>fenced_codeblock\<close> (whose handlers have none),
  \<^verbatim>\<open>footnote_def\<close> and \<^verbatim>\<open>href_def\<close> have one.
\<close>

definition parse_document :: "engine \<Rightarrow> nat \<Rightarrow> string \<Rightarrow> error + (ast list \<times> pstate)" where
  "parse_document E n doc =
     bindE (parse_blocks_at E n (normalize doc) init) (\<lambda>(ast, ps).
     bindE (footnote_def_postprocess E (parse_blocks_at E n) ast ps) (\<lambda>(ast1, ps1).
       Inr (href_def_postprocess E (href_defs ps1) (links ps1) ast1, ps1)))"

subsection \<open>The HTML printer\<close>

text \<open>\<^verbatim>\<open>attributes(attr)\<close>; the attribute names of the parser are not numeric, so
  \<^verbatim>\<open>for (let name in attr)\<close> visits them in insertion order.\<close>

definition attributes_text :: "engine \<Rightarrow> (string \<times> jsval) list option \<Rightarrow> string" where
  "attributes_text E attr =
     (case attr of
        None \<Rightarrow> []
      | Some a \<Rightarrow> '' '' @ join '' '' (map (\<lambda>(nm, v). nm @ [CHR ''='', CHR 0x22] @ to_string E v @ [CHR 0x22]) a))"

fun html_escape :: "string \<Rightarrow> string" where
  "html_escape [] = []"
| "html_escape (c # cs) =
     (if c = CHR ''>'' then ''&gt;'' else if c = CHR ''&'' then ''&amp;''
      else if c = CHR ''<'' then ''&lt;'' else [c]) @ html_escape cs"

text \<open>The names with an entry in \<^verbatim>\<open>printers\<close>.\<close>

definition printers :: "string list" where
  "printers = [''text'', ''h1'', ''h2'', ''h3'', ''h4'', ''h5'', ''h6'', ''p'', ''codeblock'', ''hr'',
               ''verbatim'', ''omit'', ''img'', ''code'']"

text \<open>\<^verbatim>\<open>c.text\<close> of a child, for \<^verbatim>\<open>html_escape(c.text)\<close>: a TypeError when the child has no
  text.\<close>

fun child_text :: "ast \<Rightarrow> error + string" where
  "child_text (Node n a c (Some t) ty k i) = Inr t"
| "child_text x = Inl TypeError"

fun escaped_texts :: "ast list \<Rightarrow> error + string list" where
  "escaped_texts [] = Inr []"
| "escaped_texts (c # cs) =
     bindE (child_text c) (\<lambda>t. bindE (escaped_texts cs) (\<lambda>ts. Inr (html_escape t # ts)))"

text \<open>What \<^verbatim>\<open>Array.prototype.join\<close> prints for an element.\<close>

fun joined_text :: "ast \<Rightarrow> string" where
  "joined_text (Str s) = s"
| "joined_text Undefined = []"
| "joined_text (Node n a c t ty k i) = ''[object Object]''"
| "joined_text (Arr xs) = join '','' (map joined_text xs)"

text \<open>\<^verbatim>\<open>outstr.split('\n').map((line) => indent + line).join('\n')\<close>\<close>

definition indent_lines :: "string \<Rightarrow> string \<Rightarrow> string" where
  "indent_lines indent s = join [CHR 0x0A] (map (\<lambda>line. indent @ line) (split_on (CHR 0x0A) s))"

text \<open>
  \<^verbatim>\<open>printers[ast.name](ast, indent)\<close> for a node whose name has a printer. \<open>inner\<close> is
  the value of \<^verbatim>\<open>inlined(ast.children, indent + '    ')\<close>, which only the printers of
  headings and paragraphs use.
\<close>

definition apply_printer :: "engine \<Rightarrow> ast \<Rightarrow> string \<Rightarrow> error + string \<Rightarrow> error + string" where
  "apply_printer E x indent inner =
     (let open_tag = ''<'' @ name x @ attributes_text E (attributes x) @ ''>'' in
      if name x = ''text'' then
        (case ntext x of
           None \<Rightarrow> Inl TypeError
         | Some t \<Rightarrow>
             (let s = indent_lines indent t in
              Inr (if \<not> endsWith s [CHR 0x0A] \<and> type x \<noteq> Some ''inline'' then s @ [CHR 0x0A] else s)))
      else if name x = ''codeblock'' then
        (case children x of
           None \<Rightarrow> Inl TypeError
         | Some cs \<Rightarrow>
             bindE (escaped_texts cs) (\<lambda>ts.
               Inr (indent @ ''<pre> <code'' @ attributes_text E (attributes x) @ ''>'' @ [CHR 0x0A]
                    @ join [CHR 0x0A] ts @ [CHR 0x0A] @ indent @ ''</code> </pre>'' @ [CHR 0x0A])))
      else if name x = ''hr'' then Inr (indent @ ''<hr>'' @ [CHR 0x0A])
      else if name x = ''verbatim'' then
        (case children x of
           None \<Rightarrow> Inl TypeError
         | Some cs \<Rightarrow> Inr (join [CHR 0x0A] (map joined_text cs) @ [CHR 0x0A]))
      else if name x = ''omit'' then Inr []
      else if name x = ''img'' then Inr open_tag
      else if name x = ''code'' then
        (case children x of
           None \<Rightarrow> Inl TypeError
         | Some cs \<Rightarrow>
             bindE (escaped_texts cs) (\<lambda>ts.
               Inr (indent @ ''<code'' @ attributes_text E (attributes x) @ ''>'' @ concat ts
                    @ ''</code>'')))
      else
        bindE inner (\<lambda>s.
          Inr (indent @ open_tag @ [CHR 0x0A] @ s @ [CHR 0x0A]
               @ indent @ ''</'' @ name x @ ''>'' @ [CHR 0x0A])))"

text \<open>
  \<^verbatim>\<open>inlined(ast, indent)\<close> and \<^verbatim>\<open>html_printer(ast, indent)\<close>. \<open>inlined_list\<close> and
  \<open>html_printer_list\<close> are their loops over an array. A name that \<^verbatim>\<open>Object.prototype\<close>
  defines would find an inherited member in \<^verbatim>\<open>printers\<close> and call it; no node of the
  parser has such a name.
\<close>

fun inlined :: "engine \<Rightarrow> ast \<Rightarrow> string \<Rightarrow> error + string"
and inlined_list :: "engine \<Rightarrow> ast list \<Rightarrow> error + string"
where
  "inlined E (Arr xs) indent =
     bindE (inlined_list E xs) (\<lambda>s. Inr (if indent \<noteq> [] then indent_lines indent s else s))"
| "inlined E (Str s) indent = Inl TypeError"
| "inlined E Undefined indent = Inl TypeError"
| "inlined E (Node n a c t ty k i) indent =
     (if n \<in> set printers then
        apply_printer E (Node n a c t ty k i) indent
          (case c of
             None \<Rightarrow> Inl TypeError
           | Some cs \<Rightarrow> bindE (inlined_list E cs) (\<lambda>s. Inr (indent_lines (indent @ ''    '') s)))
      else if n \<in> set object_prototype then Inl Unmodelled
      else
        (case c of
           None \<Rightarrow> Inl TypeError
         | Some cs \<Rightarrow>
             bindE (inlined_list E cs) (\<lambda>s.
               Inr (indent @ ''<'' @ n @ attributes_text E a @ ''>'' @ s @ ''</'' @ n @ ''>''))))"
| "inlined_list E [] = Inr []"
| "inlined_list E (x # xs) =
     bindE (inlined E x []) (\<lambda>s. bindE (inlined_list E xs) (\<lambda>r. Inr (s @ r)))"

fun html_printer :: "engine \<Rightarrow> ast \<Rightarrow> string \<Rightarrow> error + string"
and html_printer_list :: "engine \<Rightarrow> ast list \<Rightarrow> string \<Rightarrow> error + string"
where
  "html_printer E (Arr xs) indent = html_printer_list E xs indent"
| "html_printer E Undefined indent = Inl TypeError"
| "html_printer E (Str s) indent =
     Inr (indent @ ''<undefined>'' @ [CHR 0x0A] @ indent @ ''</undefined>'' @ [CHR 0x0A])"
| "html_printer E (Node n a c t ty k i) indent =
     (if ty = Some ''inline'' then
        bindE (inlined E (Node n a c t ty k i) indent) (\<lambda>s. Inr (s @ [CHR 0x0A]))
      else if n \<in> set printers then
        apply_printer E (Node n a c t ty k i) indent
          (case c of
             None \<Rightarrow> Inl TypeError
           | Some cs \<Rightarrow> bindE (inlined_list E cs) (\<lambda>s. Inr (indent_lines (indent @ ''    '') s)))
      else if n \<in> set object_prototype then Inl Unmodelled
      else
        (case c of
           Some cs \<Rightarrow>
             bindE (html_printer_list E cs (indent @ ''    '')) (\<lambda>s.
               Inr (indent @ ''<'' @ n @ attributes_text E a @ ''>'' @ [CHR 0x0A] @ s
                    @ indent @ ''</'' @ n @ ''>'' @ [CHR 0x0A]))
         | None \<Rightarrow>
             Inr (indent @ ''<'' @ n @ attributes_text E a @ ''>'' @ [CHR 0x0A]
                  @ indent @ ''</'' @ n @ ''>'' @ [CHR 0x0A])))"
| "html_printer_list E [] indent = Inr []"
| "html_printer_list E (x # xs) indent =
     bindE (html_printer E x indent) (\<lambda>s. bindE (html_printer_list E xs indent) (\<lambda>r. Inr (s @ r)))"

subsection \<open>\<^verbatim>\<open>scratchmark\<close>\<close>

text \<open>
  What a printer returns: a string, or some other value. What \<^verbatim>\<open>scratchmark\<close> returns:
  the printer's value, or the \<^verbatim>\<open>config\<close> object with the printed string as \<^verbatim>\<open>body\<close>.
\<close>

datatype 'r printed = PString string | POther 'r

datatype 'r returned = Printed "'r printed" | Config "(string \<times> jsval) list"

text \<open>
  \<^verbatim>\<open>scratchmark(lines, printer)\<close>. The argument \<open>printer\<close> is \<open>None\<close> when the call passes
  none, and \<^verbatim>\<open>(printer || html_printer)(ast)\<close> then calls \<^verbatim>\<open>html_printer\<close>.
\<close>

definition scratchmark ::
  "engine \<Rightarrow> nat \<Rightarrow> string \<Rightarrow> (ast list \<Rightarrow> 'r printed) option \<Rightarrow> error + 'r returned"
where
  "scratchmark E n doc printer =
     bindE (parse_document E n doc) (\<lambda>(ast, ps).
     bindE (case printer of
              Some pr \<Rightarrow> Inr (pr ast)
            | None \<Rightarrow> bindE (html_printer E (Arr ast) []) (\<lambda>s. Inr (PString s))) (\<lambda>html.
       case html of
         PString s \<Rightarrow>
           if length (config ps) = 0 then Inr (Printed html)
           else Inr (Config (obj_set (config ps) ''body'' (VStr s)))
       | POther v \<Rightarrow> Inr (Printed html)))"

text \<open>The printer \<^verbatim>\<open>(tree) => tree\<close> that the documentation recommends for seeing the
  syntax tree.\<close>

definition tree_printer :: "ast list \<Rightarrow> (ast list) printed" where
  "tree_printer tree = POther tree"
subsection \<open>An engine and parsers for the examples\<close>

text \<open>
  The closed examples below need an engine; this one follows V8.

  \<^verbatim>\<open>s == -1\<close> for a string converts the string to a number: white space is trimmed at
  both ends, the rest must be a decimal literal (digits with an optional fraction, or a
  fraction alone, and an optional exponent; a sign in front), and its value is rounded to
  the nearest double, ties to even. \<open>unsigned_decimal\<close> reads the literal without its sign
  as a pair \<open>(m, e)\<close> that stands for \<open>m * 10 ^ e\<close>; \<open>rounds_to_one\<close> tells whether
  that value rounds to the double 1, which it does between \<open>1 - 2 ^ -54\<close> and
  \<open>1 + 2 ^ -53\<close>, both included.
\<close>

definition digit_value :: "char \<Rightarrow> int" where
  "digit_value c = (case findIndex (\<lambda>d. d = c) ''0123456789'' of Some i \<Rightarrow> int i | None \<Rightarrow> 0)"

definition digits_value :: "string \<Rightarrow> int" where
  "digits_value ds = foldl (\<lambda>v c. 10 * v + digit_value c) 0 ds"

definition exponent_part :: "string \<Rightarrow> int option" where
  "exponent_part r =
     (case r of
        [] \<Rightarrow> Some 0
      | c # ds \<Rightarrow>
          if c = CHR ''e'' \<or> c = CHR ''E'' then
            (let ds' = (if startsWith ds ''-'' \<or> startsWith ds ''+'' then drop 1 ds else ds) in
             if ds' \<noteq> [] \<and> list_all is_digit ds'
             then Some (if startsWith ds ''-'' then - digits_value ds' else digits_value ds')
             else None)
          else None)"

definition unsigned_decimal :: "string \<Rightarrow> (int \<times> int) option" where
  "unsigned_decimal u =
     (let ip = takeWhile is_digit u;
          r1 = dropWhile is_digit u;
          fp = (if startsWith r1 ''.'' then takeWhile is_digit (drop 1 r1) else []);
          r2 = (if startsWith r1 ''.'' then dropWhile is_digit (drop 1 r1) else r1)
      in if ip = [] \<and> fp = [] then None
         else (case exponent_part r2 of
                 None \<Rightarrow> None
               | Some x \<Rightarrow> Some (digits_value (ip @ fp), x - int (length fp))))"

definition rounds_to_one :: "int \<Rightarrow> int \<Rightarrow> bool" where
  "rounds_to_one m e =
     (if e \<ge> 0 then m * 10 ^ nat e = 1
      else (2 ^ 54 - 1) * 10 ^ nat (- e) \<le> 2 ^ 54 * m \<and> 2 ^ 54 * m \<le> (2 ^ 54 + 2) * 10 ^ nat (- e))"

definition string_is_minus1 :: "string \<Rightarrow> bool" where
  "string_is_minus1 s =
     (case trim s of
        [] \<Rightarrow> False
      | c # u \<Rightarrow>
          c = CHR ''-''
          \<and> (case unsigned_decimal u of None \<Rightarrow> False | Some (m, e) \<Rightarrow> rounds_to_one m e))"

text \<open>
  The text of an inherited member: \<^verbatim>\<open>constructor\<close> is the function \<^verbatim>\<open>Object\<close>,
  \<^verbatim>\<open>__proto__\<close> is the object \<^verbatim>\<open>Object.prototype\<close>, and every other name is a native
  function of that name.
\<close>

definition native_text :: "string \<Rightarrow> string" where
  "native_text k =
     (if k = ''__proto__'' then ''[object Object]''
      else ''function '' @ (if k = ''constructor'' then ''Object'' else k) @ ''() { [native code] }'')"

definition example_engine :: engine where
  "example_engine = \<lparr>str_eq_minus1 = string_is_minus1, inherited_to_string = native_text\<rparr>"

text \<open>\<open>example_parsers\<close> are the two engines of the source with that engine and a budget of
  five steps.\<close>

definition example_parsers :: parsers2 where
  "example_parsers =
     \<lparr>parse_blocks = parse_blocks_at example_engine 5,
      parse_inline = parse_inline_text example_engine 5\<rparr>"

section \<open>Properties\<close>

subsection \<open>The parser registry\<close>

lemma findIndex_first:
  "(\<forall>x\<in>set xs. \<not> P x) \<Longrightarrow> P q \<Longrightarrow> findIndex P (xs @ q # ys) = Some (length xs)"
  by (induction xs) auto

lemma findIndex_none: "(\<forall>x\<in>set xs. \<not> P x) \<Longrightarrow> findIndex P xs = None"
  by (induction xs) auto

text \<open>
  Claim C8, as amended. A call of \<^verbatim>\<open>add\<close> without \<^verbatim>\<open>before\<close>, or with the empty string
  as \<^verbatim>\<open>before\<close>, appends the parser. With a non-empty \<^verbatim>\<open>before\<close> that is the name of a
  registered parser, the new parser is put immediately in front of the first parser of
  that name, and the order of the others is kept. With a non-empty \<^verbatim>\<open>before\<close> that names
  no registered parser the call throws \<^verbatim>\<open>'no parser called ' + before\<close>.
\<close>

theorem add_amended:
  "(before = None \<or> before = Some [] \<longrightarrow>
      add pname p before c
        = Inr (c\<lparr>parsers := parsers c @ [p], byname := (byname c)(pname p \<mapsto> p)\<rparr>))
   \<and> (\<forall>b xs q ys. before = Some b \<and> b \<noteq> [] \<and> parsers c = xs @ q # ys \<and> pname q = b
          \<and> (\<forall>x\<in>set xs. pname x \<noteq> b) \<longrightarrow>
      add pname p before c
        = Inr (c\<lparr>parsers := xs @ p # q # ys, byname := (byname c)(pname p \<mapsto> p)\<rparr>))
   \<and> (\<forall>b. before = Some b \<and> b \<noteq> [] \<and> (\<forall>q\<in>set (parsers c). pname q \<noteq> b) \<longrightarrow>
      add pname p before c = Inl (Thrown (''no parser called '' @ b)))"
  by (auto simp: add_def splice0_def findIndex_first findIndex_none)

theorem add_amended_witness:
  "add (\<lambda>q. q) ''strong'' (Some ''em'') \<lparr>parsers = [''code'', ''em'', ''sub''], byname = Map.empty\<rparr>
     = Inr \<lparr>parsers = [''code'', ''strong'', ''em'', ''sub''], byname = [''strong'' \<mapsto> ''strong'']\<rparr>
   \<and> add (\<lambda>q. q) ''strong'' (Some ''b'') \<lparr>parsers = [''code'', ''em'', ''sub''], byname = Map.empty\<rparr>
     = Inl (Thrown ''no parser called b'')
   \<and> add (\<lambda>q. q) ''strong'' None \<lparr>parsers = [''code'', ''em'', ''sub''], byname = Map.empty\<rparr>
     = Inr \<lparr>parsers = [''code'', ''em'', ''sub'', ''strong''], byname = [''strong'' \<mapsto> ''strong'']\<rparr>"
  using add_amended [of "Some ''em''" "\<lambda>q. q" "''strong''" "\<lparr>parsers = [''code'', ''em'', ''sub''], byname = Map.empty\<rparr>", THEN conjunct2, THEN conjunct1, rule_format, of "''em''" "[''code'']" "''em''" "[''sub'']"]
    add_amended [of "Some ''b''" "\<lambda>q. q" "''strong''" "\<lparr>parsers = [''code'', ''em'', ''sub''], byname = Map.empty\<rparr>", THEN conjunct2, THEN conjunct2, rule_format, of "''b''"]
    add_amended [of None "\<lambda>q. q" "''strong''" "\<lparr>parsers = [''code'', ''em'', ''sub''], byname = Map.empty\<rparr>", THEN conjunct1]
  by simp

text \<open>
  Claim C8 as stated fails for the empty string: it is a \<^verbatim>\<open>before\<close> argument that names
  no registered parser, and the call appends instead of failing.
\<close>

theorem add_empty_before_counterexample:
  "'''' \<notin> set [''code'', ''em'']
   \<and> add (\<lambda>q. q) ''strong'' (Some '''') \<lparr>parsers = [''code'', ''em''], byname = Map.empty\<rparr>
     = Inr \<lparr>parsers = [''code'', ''em'', ''strong''], byname = [''strong'' \<mapsto> ''strong'']\<rparr>"
  by (simp add: add_def)

subsection \<open>Dedent\<close>

text \<open>The dedent step as the specification words it: the number of spaces stripped is the
  minimum leading-space count of the remaining non-blank lines, and 2 when there is no
  such line.\<close>

definition dedent_spec_item :: "item \<Rightarrow> item" where
  "dedent_spec_item it =
     (let rest = tl (lines it);
          nonblank = filter (\<lambda>l. \<not> blankline l) rest;
          n = (if nonblank = [] then 2 else Min (set (map leading_spaces nonblank)))
      in it\<lparr>lines := drop (length (prefix it)) (hd (lines it)) # map (strip_spaces n) rest\<rparr>)"

text \<open>What the source computes: the minimum of the marker length and the leading-space
  counts of the remaining non-blank lines.\<close>

definition dedent_len :: "item \<Rightarrow> nat" where
  "dedent_len it =
     Min (insert (length (prefix it))
            (leading_spaces ` {l \<in> set (tl (lines it)). \<not> blankline l}))"

lemma min_indent_ok:
  "\<forall>l\<in>set rest. blankline l \<or> indented l \<Longrightarrow>
   min_indent len rest
     = Inr (Min (insert len (leading_spaces ` {l \<in> set rest. \<not> blankline l})))"
proof (induction rest arbitrary: len)
  case Nil
  then show ?case by simp
next
  case (Cons l rest)
  show ?case
  proof (cases "blankline l")
    case True
    have "{x \<in> set (l # rest). \<not> blankline x} = {x \<in> set rest. \<not> blankline x}"
      using True by auto
    then show ?thesis using Cons True by simp
  next
    case False
    then have ind: "indented l" using Cons.prems by simp
    then have pos: "leading_spaces l \<noteq> 0"
      by (cases l) (auto simp: indented_def startsWith_def leading_spaces_def)
    let ?S = "leading_spaces ` {x \<in> set rest. \<not> blankline x}"
    have set_eq: "leading_spaces ` {x \<in> set (l # rest). \<not> blankline x} = insert (leading_spaces l) ?S"
      using False by auto
    have fin: "finite ?S" by simp
    have "Min (insert (min len (leading_spaces l)) ?S) = Min (insert len (insert (leading_spaces l) ?S))"
    proof (cases "?S = {}")
      case True
      have "Min {min len (leading_spaces l)} = Min {len, leading_spaces l}" by simp
      then show ?thesis by (simp only: True)
    next
      case F: False
      have "Min (insert (min len (leading_spaces l)) ?S) = min (min len (leading_spaces l)) (Min ?S)"
        using fin F by (rule Min_insert)
      moreover have "Min (insert (leading_spaces l) ?S) = min (leading_spaces l) (Min ?S)"
        using fin F by (rule Min_insert)
      moreover have "Min (insert len (insert (leading_spaces l) ?S)) = min len (Min (insert (leading_spaces l) ?S))"
        by (rule Min_insert) (use fin in auto)
      ultimately show ?thesis by (simp only: min.assoc)
    qed
    then show ?thesis using Cons False pos set_eq by simp
  qed
qed

lemma strip_spaces_exact:
  "n \<le> leading_spaces l \<Longrightarrow> strip_spaces n l = drop n l"
  by (simp add: strip_spaces_def min_def)

lemma strip_spaces_blank: "blankline l \<Longrightarrow> strip_spaces n l = l"
  by (simp add: strip_spaces_def blankline_def)

lemma dedent_len_le:
  "l \<in> set (tl (lines it)) \<Longrightarrow> \<not> blankline l \<Longrightarrow> dedent_len it \<le> leading_spaces l"
  unfolding dedent_len_def by (intro Min_le) auto

lemma dedent_len_pos:
  assumes "prefix it \<noteq> []" "\<forall>l\<in>set (tl (lines it)). blankline l \<or> indented l"
  shows "0 < dedent_len it"
proof -
  have "\<forall>x \<in> insert (length (prefix it)) (leading_spaces ` {l \<in> set (tl (lines it)). \<not> blankline l}). 0 < x"
  proof
    fix x assume "x \<in> insert (length (prefix it)) (leading_spaces ` {l \<in> set (tl (lines it)). \<not> blankline l})"
    then consider "x = length (prefix it)" | l where "l \<in> set (tl (lines it))" "\<not> blankline l" "x = leading_spaces l" by auto
    then show "0 < x"
    proof cases
      case 1 then show ?thesis using assms(1) by simp
    next
      case 2
      then have "indented l" using assms(2) by auto
      then show ?thesis using 2 by (cases l) (auto simp: indented_def startsWith_def leading_spaces_def)
    qed
  qed
  then show ?thesis unfolding dedent_len_def by (subst Min_gr_iff) auto
qed

lemma dedent_item_amended:
  assumes "lines it \<noteq> []" "prefix it \<noteq> []" "\<forall>l\<in>set (tl (lines it)). blankline l \<or> indented l"
  shows "dedent_item it
     = Inr (it\<lparr>lines := drop (length (prefix it)) (hd (lines it))
                 # map (\<lambda>l. if blankline l then l else drop (dedent_len it) l) (tl (lines it))\<rparr>)"
proof -
  obtain l0 rest where lr: "lines it = l0 # rest" using assms(1) by (cases "lines it") auto
  have pos: "dedent_len it \<noteq> 0" using dedent_len_pos[OF assms(2,3)] by simp
  have m: "min_indent (length (prefix it)) rest = Inr (dedent_len it)"
    using min_indent_ok[of rest "length (prefix it)"] assms(3) lr by (simp add: dedent_len_def)
  have "map (strip_spaces (dedent_len it)) rest = map (\<lambda>l. if blankline l then l else drop (dedent_len it) l) rest"
    using dedent_len_le[of _ it] lr by (auto simp: strip_spaces_blank strip_spaces_exact)
  then show ?thesis using lr m pos by (simp add: dedent_item_def)
qed

text \<open>
  Claim C7, as amended. For items as \<^verbatim>\<open>list_item\<close> collects them (a first line, a
  non-empty marker, every further line blank or indented), \<^verbatim>\<open>dedent\<close> removes the marker
  from the first line and removes from every further non-blank line exactly \<open>dedent_len\<close>
  characters, all of them spaces since no such line has fewer leading spaces; blank lines
  stay as they are.
\<close>

theorem dedent_amended:
  assumes "\<forall>it\<in>set items. lines it \<noteq> [] \<and> prefix it \<noteq> []
             \<and> (\<forall>l\<in>set (tl (lines it)). blankline l \<or> indented l)"
  shows "dedent items
     = Inr (map (\<lambda>it. it\<lparr>lines := drop (length (prefix it)) (hd (lines it))
                 # map (\<lambda>l. if blankline l then l else drop (dedent_len it) l) (tl (lines it))\<rparr>) items)
     \<and> (\<forall>it\<in>set items. \<forall>l\<in>set (tl (lines it)). \<not> blankline l \<longrightarrow> dedent_len it \<le> leading_spaces l)"
  using assms
proof (induction items)
  case Nil
  then show ?case by simp
next
  case (Cons it items)
  then show ?case using dedent_item_amended[of it] dedent_len_le by simp
qed

theorem dedent_amended_witness:
  "dedent [\<lparr>prefix = ''1) '', lines = [''1) a'', '''', ''    b'', ''     c'']\<rparr>]
     = Inr [\<lparr>prefix = ''1) '', lines = [''a'', '''', '' b'', ''  c'']\<rparr>]"
proof -
  let ?it = "\<lparr>prefix = ''1) '', lines = [''1) a'', '''', ''    b'', ''     c'']\<rparr>"
  have h: "\<forall>it\<in>set [?it]. lines it \<noteq> [] \<and> prefix it \<noteq> []
             \<and> (\<forall>l\<in>set (tl (lines it)). blankline l \<or> indented l)"
    by (simp add: blankline_def indented_def startsWith_def)
  have "{l. (l = [] \<or> l = ''    b'' \<or> l = ''     c'') \<and> l \<noteq> []} = {''    b'', ''     c''}" by auto
  then have d: "dedent_len ?it = 3"
    by (simp add: dedent_len_def blankline_def leading_spaces_def)
  show ?thesis using dedent_amended[OF h] d by (simp add: blankline_def)
qed

text \<open>
  Claim C7 as stated fails when a continuation line is indented deeper than the marker is
  long: for \<^verbatim>\<open>* a\<close> followed by a line indented by four spaces the source removes two
  spaces, the marker length, where the minimum leading-space count is four.
\<close>

theorem dedent_counterexample:
  "dedent [\<lparr>prefix = ''* '', lines = [''* a'', ''    b'']\<rparr>]
      = Inr [\<lparr>prefix = ''* '', lines = [''a'', ''  b'']\<rparr>]
   \<and> map dedent_spec_item [\<lparr>prefix = ''* '', lines = [''* a'', ''    b'']\<rparr>]
      = [\<lparr>prefix = ''* '', lines = [''a'', ''b'']\<rparr>]"
  by (simp add: dedent_item_def dedent_spec_item_def leading_spaces_def blankline_def strip_spaces_def)

subsection \<open>Lists\<close>

text \<open>
  \<open>collected regex styleof st it\<close>: \<open>it\<close> is an item as \<^verbatim>\<open>list_item\<close> collects it for a
  list of style \<open>st\<close>. Its first line starts with the marker \<open>prefix it\<close>, which has that
  style; the other lines are blank or indented. \<open>marker_regex\<close>: a line the regular
  expression matches is neither blank nor indented, as is the case for both list
  regular expressions.
\<close>

definition collected :: "(string \<Rightarrow> string option) \<Rightarrow> (string \<Rightarrow> 's) \<Rightarrow> 's \<Rightarrow> item \<Rightarrow> bool" where
  "collected regex styleof st it =
     (case lines it of
        [] \<Rightarrow> False
      | l # rest \<Rightarrow> regex l = Some (prefix it) \<and> prefix it \<noteq> [] \<and> styleof (prefix it) = st
                   \<and> \<not> indented l \<and> \<not> blankline l
                   \<and> list_all (\<lambda>x. indented x \<or> blankline x) rest)"

definition marker_regex :: "(string \<Rightarrow> string option) \<Rightarrow> bool" where
  "marker_regex regex = (\<forall>l p. regex l = Some p \<longrightarrow> \<not> indented l \<and> \<not> blankline l)"

definition dedentable :: "item \<Rightarrow> bool" where
  "dedentable it = (lines it \<noteq> [] \<and> prefix it \<noteq> []
                    \<and> list_all (\<lambda>l. blankline l \<or> indented l) (tl (lines it)))"

lemma unordered_re_SomeD:
  assumes "unordered_re l = Some p"
  shows "p = take 2 l" "length p = 2" "hd p = hd l" "hd l \<in> {CHR ''+'', CHR ''*'', CHR ''-''}"
        "\<not> indented l" "\<not> blankline l"
  using assms
  by (auto simp: unordered_re_def indented_def startsWith_def blankline_def
           split: list.splits if_splits)

lemma closesD: "closes r \<Longrightarrow> length r \<ge> 2"
  by (auto simp: closes_def split: list.splits)

lemma ordered_re_SomeD:
  assumes "ordered_re l = Some p"
  shows "p \<noteq> []" "\<not> indented l" "\<not> blankline l"
proof -
  have ne: "l \<noteq> []" using assms by (auto simp: ordered_re_def Let_def closes_def split: if_splits)
  then obtain c cs where l: "l = c # cs" by (cases l) auto
  have "c \<noteq> CHR '' ''"
    using assms l
    by (auto simp: ordered_re_def Let_def is_digit_def is_letter_def is_roman_def split: if_splits)
  then show "\<not> indented l" "\<not> blankline l" using l
    by (auto simp: indented_def startsWith_def blankline_def)
  show "p \<noteq> []" using assms l
    by (auto simp: ordered_re_def Let_def split: if_splits)
qed

lemma list_item_collected:
  assumes "collected regex styleof st it" "checkmarker styleof style (prefix it)"
    and "\<not> indented l2" "\<not> blankline l2"
  shows "list_item (lines it @ l2 # rest2) regex (checkmarker styleof style) = (Some it, l2 # rest2)"
proof -
  obtain l rest where lr: "lines it = l # rest" using assms(1) by (auto simp: collected_def split: list.splits)
  have r: "regex l = Some (prefix it)" "prefix it \<noteq> []" "\<forall>x\<in>set rest. indented x \<or> blankline x"
    using assms(1) lr by (auto simp: collected_def list_all_iff)
  have tw: "takeWhile (\<lambda>line. indented line \<or> blankline line) (rest @ l2 # rest2) = rest"
    using r(3) assms(3,4) by (simp add: takeWhile_append2)
  have dw: "dropWhile (\<lambda>line. indented line \<or> blankline line) (rest @ l2 # rest2) = l2 # rest2"
    using r(3) assms(3,4) by (simp add: dropWhile_append2)
  have "it = \<lparr>prefix = prefix it, lines = l # rest\<rparr>" using lr by simp
  then show ?thesis using lr r assms(2) tw dw
    by (simp add: list_item_def grablines_def)
qed

lemma collect_items_run:
  assumes "list_all (collected regex styleof st) its"
    and "style = None \<and> its \<noteq> [] \<or> style = Some st"
    and "regex l2 = Some p2" "styleof p2 \<noteq> st" "\<not> indented l2" "\<not> blankline l2"
  shows "collect_items regex styleof style acc (concat (map lines its) @ l2 # rest2)
           = (acc @ its, Some st, l2 # rest2)"
  using assms(1,2)
proof (induction its arbitrary: style acc)
  case Nil
  then have st: "style = Some st" by simp
  have "list_item (l2 # rest2) regex (checkmarker styleof (Some st)) = (None, l2 # rest2)"
    using assms(3,4) by (simp add: list_item_def checkmarker_def)
  then show ?case using st by (subst collect_items.simps) simp
next
  case (Cons it its)
  have c: "collected regex styleof st it" using Cons.prems(1) by simp
  then have sty: "styleof (prefix it) = st" by (auto simp: collected_def split: list.splits)
  have chk: "checkmarker styleof style (prefix it)"
    using Cons.prems(2) sty by (auto simp: checkmarker_def)
  let ?tail = "concat (map lines its) @ l2 # rest2"
  have hd_tail: "\<exists>x xs. ?tail = x # xs \<and> \<not> indented x \<and> \<not> blankline x"
  proof (cases its)
    case Nil then show ?thesis using assms(5,6) by simp
  next
    case (Cons it' its')
    then have "collected regex styleof st it'" using Cons.prems(1) \<open>list_all (collected regex styleof st) (it # its)\<close> by simp
    then obtain l r where "lines it' = l # r" "\<not> indented l" "\<not> blankline l"
      by (auto simp: collected_def split: list.splits)
    then show ?thesis using Cons by simp
  qed
  then obtain x xs where t: "?tail = x # xs" "\<not> indented x" "\<not> blankline x" by blast
  have li: "list_item (lines it @ ?tail) regex (checkmarker styleof style) = (Some it, ?tail)"
    using list_item_collected[OF c chk t(2,3), of xs] t(1) by simp
  have style': "(case style of None \<Rightarrow> Some (styleof (prefix it)) | Some s \<Rightarrow> Some s) = Some st"
    using Cons.prems(2) sty by (auto split: option.splits)
  have "collect_items regex styleof style acc (concat (map lines (it # its)) @ l2 # rest2)
        = collect_items regex styleof (Some st) (acc @ [it]) ?tail"
    using li style' by (subst collect_items.simps) simp
  also have "\<dots> = ((acc @ [it]) @ its, Some st, l2 # rest2)"
    using Cons.IH[of "Some st" "acc @ [it]"] Cons.prems(1) by simp
  finally show ?case by simp
qed

lemma marker_regex_unordered: "marker_regex unordered_re"
  by (auto simp: marker_regex_def dest: unordered_re_SomeD)

lemma marker_regex_ordered: "marker_regex ordered_re"
  by (auto simp: marker_regex_def dest: ordered_re_SomeD)

lemma list_item_SomeD:
  assumes "list_item ls regex check = (Some it, ls')" "marker_regex regex"
  shows "\<exists>l rest. ls = l # rest \<and> regex l = Some (prefix it) \<and> check (prefix it)
           \<and> collected regex styleof (styleof (prefix it)) it \<and> hd (lines it) = l"
  using assms
  by (auto simp: list_item_def grablines_def collected_def marker_regex_def list_all_iff
           split: list.splits option.splits if_splits dest: set_takeWhileD)

lemma collect_items_inv:
  "marker_regex regex \<Longrightarrow> collect_items regex styleof style acc ls = (its, style', ls') \<Longrightarrow>
     (\<exists>new. its = acc @ new
        \<and> (\<forall>st. style' = Some st \<longrightarrow> list_all (collected regex styleof st) new)
        \<and> (\<forall>st. style = Some st \<longrightarrow> style' = Some st)
        \<and> (style = None \<longrightarrow> new = [] \<longrightarrow> style' = None)
        \<and> (style = None \<longrightarrow> new \<noteq> [] \<longrightarrow>
              style' = Some (styleof (prefix (hd new))) \<and> ls \<noteq> [] \<and> hd (lines (hd new)) = hd ls))"
proof (induction regex styleof style acc ls arbitrary: its style' ls' rule: collect_items.induct)
  case (1 regex styleof style items ls)
  show ?case
  proof (cases "list_item ls regex (checkmarker styleof style)")
    case (Pair r lsn)
    show ?thesis
    proof (cases r)
      case None
      then have "its = items" "style' = style" "ls' = ls"
        using "1.prems"(2) Pair by (subst (asm) collect_items.simps, simp)+
      then show ?thesis by auto
    next
      case (Some it)
      let ?style = "case style of None \<Rightarrow> Some (styleof (prefix it)) | Some s \<Rightarrow> Some s"
      have rec: "collect_items regex styleof ?style (items @ [it]) lsn = (its, style', ls')"
        using "1.prems"(2) Pair Some by (subst (asm) collect_items.simps) simp
      from list_item_SomeD[OF Pair[unfolded Some] "1.prems"(1), of styleof]
      obtain l rest where lr: "ls = l # rest" "regex l = Some (prefix it)"
          "checkmarker styleof style (prefix it)"
          "collected regex styleof (styleof (prefix it)) it" "hd (lines it) = l" by blast
      from "1.IH"[OF Pair[symmetric] Some "1.prems"(1) rec]
      obtain new where new: "its = (items @ [it]) @ new"
        "\<forall>st. style' = Some st \<longrightarrow> list_all (collected regex styleof st) new"
        "\<forall>st. ?style = Some st \<longrightarrow> style' = Some st" by blast
      have sty: "style' = ?style" using new(3) by (auto split: option.splits)
      have it_ok: "\<forall>st. style' = Some st \<longrightarrow> collected regex styleof st it"
        using sty lr(3,4) by (auto simp: checkmarker_def split: option.splits)
      show ?thesis
        apply (rule exI[of _ "it # new"])
        using new it_ok sty lr by (auto split: option.splits)
    qed
  qed
qed

lemma collected_dedentable: "collected regex styleof st it \<Longrightarrow> dedentable it"
  by (auto simp: collected_def dedentable_def list_all_iff split: list.splits)

lemma dedent_length:
  "list_all dedentable items \<Longrightarrow> \<exists>items'. dedent items = Inr items' \<and> length items' = length items"
proof (induction items)
  case Nil
  then show ?case by simp
next
  case (Cons it items)
  have "lines it \<noteq> []" "prefix it \<noteq> []" "\<forall>l\<in>set (tl (lines it)). blankline l \<or> indented l"
    using Cons.prems by (auto simp: dedentable_def list_all_iff)
  from dedent_item_amended[OF this] obtain it' where "dedent_item it = Inr it'" by blast
  then show ?case using Cons by auto
qed

lemma trailing_blanks_short:
  assumes "\<not> P l"
  shows "length (takeWhile P (rev (l # rest))) \<le> length rest"
proof (cases "\<forall>x\<in>set (rev rest). P x")
  case True
  then have "takeWhile P (rev rest @ [l]) = rev rest @ takeWhile P [l]"
    by (intro takeWhile_append2) auto
  then show ?thesis using assms by simp
next
  case False
  then obtain x where "x \<in> set (rev rest)" "\<not> P x" by blast
  then have "takeWhile P (rev rest @ [l]) = takeWhile P (rev rest)"
    by (rule takeWhile_append1)
  moreover have "length (takeWhile P (rev rest)) \<le> length (rev rest)"
    by (rule length_takeWhile_le)
  ultimately show ?thesis by simp
qed

lemma drop_trailing:
  "list_all P (drop (length xs - length (takeWhile P (rev xs))) xs)"
proof -
  have "drop (length xs - length (takeWhile P (rev xs))) xs
        = rev (take (length (takeWhile P (rev xs))) (rev xs))"
    by (simp add: rev_take)
  also have "take (length (takeWhile P (rev xs))) (rev xs) = takeWhile P (rev xs)"
    by (simp add: takeWhile_eq_take[symmetric])
  finally show ?thesis by (auto simp: list_all_iff dest: set_takeWhileD)
qed

lemma deblank_collected:
  assumes "list_all (collected regex styleof st) its" "deblank its ls = (its', ls')"
  shows "length its' = length its"
    and "\<exists>blanks. ls' = blanks @ ls \<and> list_all blankline blanks"
    and "list_all dedentable its'"
proof -
  show "length its' = length its" using assms(2)
    by (cases "its = []") (auto simp: deblank_def Let_def split: if_splits)
  show "\<exists>blanks. ls' = blanks @ ls \<and> list_all blankline blanks"
    using assms(2) drop_trailing[of blankline "lines (last its)"]
    by (auto simp: deblank_def Let_def split: if_splits)
  show "list_all dedentable its'"
  proof (cases "length its > 1")
    case False
    then show ?thesis using assms by (auto simp: deblank_def list_all_iff dest: collected_dedentable)
  next
    case True
    then have ne: "its \<noteq> []" by auto
    let ?it = "last its"
    let ?n = "length (lines ?it) - length (takeWhile blankline (rev (lines ?it)))"
    have its': "its' = butlast its @ [?it\<lparr>lines := take ?n (lines ?it)\<rparr>]"
      using assms(2) True by (simp add: deblank_def Let_def)
    have c: "collected regex styleof st ?it" using assms(1) ne by (simp add: list_all_iff)
    then obtain l rest where lr: "lines ?it = l # rest" "\<not> blankline l"
      "prefix ?it \<noteq> []" "\<forall>x\<in>set rest. indented x \<or> blankline x"
      by (auto simp: collected_def list_all_iff split: list.splits)
    have "?n \<ge> 1" using trailing_blanks_short[of blankline l rest] lr(1,2) by simp
    then obtain m where m: "?n = Suc m" by (cases ?n) auto
    have "dedentable (?it\<lparr>lines := take ?n (lines ?it)\<rparr>)"
      unfolding m using lr by (auto simp: dedentable_def list_all_iff dest: in_set_takeD)
    moreover have "list_all dedentable (butlast its)"
      using assms(1) by (auto simp: list_all_iff dest: in_set_butlastD collected_dedentable)
    ultimately show ?thesis using its' by simp
  qed
qed

lemma checkloose_length: "length (checkloose items) = length items"
  by (simp add: checkloose_def)

lemma map_blocks_length:
  "map_blocks pb lss ps = Inr (css, ps') \<Longrightarrow> length css = length lss"
proof (induction lss arbitrary: ps css ps')
  case Nil
  then show ?case by simp
next
  case (Cons ls lss)
  obtain cs ps1 where p: "pb ls ps = Inr (cs, ps1)"
    using Cons.prems by (cases "pb ls ps") auto
  obtain css1 ps2 where m: "map_blocks pb lss ps1 = Inr (css1, ps2)"
    using Cons.prems p by (cases "map_blocks pb lss ps1") auto
  have "css = cs # css1" using Cons.prems p m by simp
  then show ?case using Cons.IH[OF m] by simp
qed

lemma list_tail_ok:
  assumes "list_all (collected regex styleof st) its" "deblank its ls1 = (its2, ls2)"
    and "bindE (dedent its2) (\<lambda>its3.
           bindE (map_blocks pb (map lines (checkloose its3)) ps) (\<lambda>(css, ps'). Inr (mk css, ls2, ps')))
         = Inr r"
  shows "\<exists>css ps' blanks. r = (mk css, blanks @ ls1, ps') \<and> length css = length its
           \<and> list_all blankline blanks"
proof -
  from deblank_collected[OF assms(1,2)] obtain blanks where
    d: "length its2 = length its" "ls2 = blanks @ ls1" "list_all blankline blanks"
       "list_all dedentable its2" by blast
  from dedent_length[OF d(4)] obtain its3 where
    i3: "dedent its2 = Inr its3" "length its3 = length its2" by blast
  obtain css ps' where mb: "map_blocks pb (map lines (checkloose its3)) ps = Inr (css, ps')"
    and r: "r = (mk css, ls2, ps')"
    using assms(3) i3(1)
    by (cases "map_blocks pb (map lines (checkloose its3)) ps") (auto split: prod.splits)
  have "length css = length its"
    using map_blocks_length[OF mb] i3(2) d(1) by (simp add: checkloose_length)
  then show ?thesis using r d by auto
qed

lemma map_blocks_total:
  "(\<forall>ls ps. \<exists>r. pb ls ps = Inr r) \<Longrightarrow> \<exists>r. map_blocks pb lss ps = Inr r"
proof (induction lss arbitrary: ps)
  case Nil
  then show ?case by simp
next
  case (Cons ls lss)
  obtain cs ps1 where p: "pb ls ps = Inr (cs, ps1)" using Cons.prems by (metis surj_pair)
  obtain css ps2 where m: "map_blocks pb lss ps1 = Inr (css, ps2)"
    using Cons.IH[OF Cons.prems] by (metis surj_pair)
  show ?case using p m by simp
qed

lemma list_tail_total:
  assumes "list_all (collected regex styleof st) its" "deblank its ls1 = (its2, ls2)"
    and "\<forall>ls ps. \<exists>r. pb ls ps = Inr r"
  shows "\<exists>r. bindE (dedent its2) (\<lambda>its3.
           bindE (map_blocks pb (map lines (checkloose its3)) ps) (\<lambda>(css, ps'). Inr (mk css, ls2, ps')))
         = Inr r"
proof -
  from deblank_collected[OF assms(1,2)] have "list_all dedentable its2" by blast
  from dedent_length[OF this] obtain its3 where i3: "dedent its2 = Inr its3" by blast
  from map_blocks_total[OF assms(3)] obtain css ps' where
    "map_blocks pb (map lines (checkloose its3)) ps = Inr (css, ps')" by (metis surj_pair)
  then show ?thesis using i3 by simp
qed

lemma collect_items_first:
  assumes "marker_regex regex" "regex l = Some p" "p \<noteq> []"
  shows "\<exists>its ls'. collect_items regex styleof None [] (l # rest) = (its, Some (styleof p), ls')
           \<and> its \<noteq> [] \<and> list_all (collected regex styleof (styleof p)) its"
proof -
  obtain its style' ls' where c: "collect_items regex styleof None [] (l # rest) = (its, style', ls')"
    by (metis surj_pair)
  from collect_items_inv[OF assms(1) c] obtain new where new: "its = new"
    "\<forall>st. style' = Some st \<longrightarrow> list_all (collected regex styleof st) new"
    "new = [] \<longrightarrow> style' = None"
    "new \<noteq> [] \<longrightarrow> style' = Some (styleof (prefix (hd new))) \<and> hd (lines (hd new)) = l"
    by auto
  have "new \<noteq> []"
  proof
    assume e: "new = []"
    obtain it lsn where li: "list_item (l # rest) regex (checkmarker styleof None) = (Some it, lsn)"
      using assms(2,3) by (auto simp: list_item_def checkmarker_def grablines_def)
    then have "collect_items regex styleof None [] (l # rest)
               = collect_items regex styleof (Some (styleof (prefix it))) [it] lsn"
      by (subst collect_items.simps) simp
    with c have c2: "collect_items regex styleof (Some (styleof (prefix it))) [it] lsn = (its, style', ls')"
      by simp
    from collect_items_inv[OF assms(1) c2] obtain new2 where "its = [it] @ new2" by blast
    then show False using new(1) e by simp
  qed
  then have s: "style' = Some (styleof (prefix (hd new)))" "hd (lines (hd new)) = l" using new(4) by auto
  then have "collected regex styleof (styleof (prefix (hd new))) (hd new)"
    using new(2) \<open>new \<noteq> []\<close> by (cases new) auto
  then have "regex l = Some (prefix (hd new))" using s(2)
    by (auto simp: collected_def split: list.splits)
  then have "prefix (hd new) = p" using assms(2) by simp
  then show ?thesis using c new s \<open>new \<noteq> []\<close> by auto
qed

lemma unordered_list_parse_Inr:
  assumes "collect_items unordered_re hd None [] ls = (its, Some m, ls1)" "its \<noteq> []"
    and "list_all (collected unordered_re hd m) its"
  shows "unordered_list_parse P ls ps = Inr r \<Longrightarrow>
           \<exists>css blanks ps'. r = (Some (Node ''ul'' (Some [(''class'', ulclass m)]) (Some (li_nodes css))
                                       None None None None), blanks @ ls1, ps')
              \<and> length css = length its \<and> list_all blankline blanks"
    and "(\<forall>ls ps. \<exists>r. parse_blocks P ls ps = Inr r) \<Longrightarrow> \<exists>r. unordered_list_parse P ls ps = Inr r"
proof -
  obtain its2 ls2 where d: "deblank its ls1 = (its2, ls2)" by (metis surj_pair)
  {
    assume "unordered_list_parse P ls ps = Inr r"
    then have "bindE (dedent its2) (\<lambda>its3.
           bindE (map_blocks (parse_blocks P) (map lines (checkloose its3)) ps)
             (\<lambda>(css, ps'). Inr (Some (Node ''ul'' (Some [(''class'', ulclass m)]) (Some (li_nodes css))
                                       None None None None), ls2, ps'))) = Inr r"
      using assms(1,2) d by (simp add: unordered_list_parse_def)
    from list_tail_ok[OF assms(3) d this]
    show "\<exists>css blanks ps'. r = (Some (Node ''ul'' (Some [(''class'', ulclass m)]) (Some (li_nodes css))
                                       None None None None), blanks @ ls1, ps')
              \<and> length css = length its \<and> list_all blankline blanks" by blast
  }
  {
    assume "\<forall>ls ps. \<exists>r. parse_blocks P ls ps = Inr r"
    from list_tail_total[OF assms(3) d this]
    show "\<exists>r. unordered_list_parse P ls ps = Inr r"
      using assms(1,2) d by (simp add: unordered_list_parse_def)
  }
qed

lemma ordered_list_parse_Inr:
  assumes "collect_items ordered_re getstyle None [] ls = (its, Some st, ls1)" "its \<noteq> []"
    and "list_all (collected ordered_re getstyle st) its"
  shows "ordered_list_parse P ls ps = Inr r \<Longrightarrow>
           \<exists>css blanks ps'. r = (Some (Node ''ol''
                                       (Some [(''start'', VStr (butlast (butlast (prefix (hd its))))),
                                              (''type'', VStr (butlast st))])
                                       (Some (li_nodes css)) None None None None), blanks @ ls1, ps')
              \<and> length css = length its \<and> list_all blankline blanks"
    and "(\<forall>ls ps. \<exists>r. parse_blocks P ls ps = Inr r) \<Longrightarrow> \<exists>r. ordered_list_parse P ls ps = Inr r"
proof -
  obtain its2 ls2 where d: "deblank its ls1 = (its2, ls2)" by (metis surj_pair)
  {
    assume "ordered_list_parse P ls ps = Inr r"
    then have "bindE (dedent its2) (\<lambda>its3.
           bindE (map_blocks (parse_blocks P) (map lines (checkloose its3)) ps)
             (\<lambda>(css, ps'). Inr (Some (Node ''ol''
                                       (Some [(''start'', VStr (butlast (butlast (prefix (hd its))))),
                                              (''type'', VStr (butlast st))])
                                       (Some (li_nodes css)) None None None None), ls2, ps'))) = Inr r"
      using assms(1,2) d by (simp add: ordered_list_parse_def)
    from list_tail_ok[OF assms(3) d this]
    show "\<exists>css blanks ps'. r = (Some (Node ''ol''
                                       (Some [(''start'', VStr (butlast (butlast (prefix (hd its))))),
                                              (''type'', VStr (butlast st))])
                                       (Some (li_nodes css)) None None None None), blanks @ ls1, ps')
              \<and> length css = length its \<and> list_all blankline blanks" by blast
  }
  {
    assume "\<forall>ls ps. \<exists>r. parse_blocks P ls ps = Inr r"
    from list_tail_total[OF assms(3) d this]
    show "\<exists>r. ordered_list_parse P ls ps = Inr r"
      using assms(1,2) d by (simp add: ordered_list_parse_def)
  }
qed

lemma collect_items_None:
  "list_item ls regex (checkmarker styleof style) = (None, r) \<Longrightarrow>
   collect_items regex styleof style acc ls = (acc, style, ls)"
  by (subst collect_items.simps) simp

lemma collect_items_Some:
  "list_item ls regex (checkmarker styleof style) = (Some it, ls') \<Longrightarrow>
   collect_items regex styleof style acc ls
     = collect_items regex styleof
         (case style of None \<Rightarrow> Some (styleof (prefix it)) | Some st \<Rightarrow> Some st) (acc @ [it]) ls'"
  by (subst collect_items.simps) simp

text \<open>
  Claim C10. Every node the unordered-list parser produces is a \<^verbatim>\<open>ul\<close> whose
  \<^verbatim>\<open>attributes\<close> are exactly a \<^verbatim>\<open>class\<close>, given by the marker character, the first
  character of the first line: \<^verbatim>\<open>star-list\<close> for \<^verbatim>\<open>*\<close>, \<^verbatim>\<open>plus-list\<close> for \<^verbatim>\<open>+\<close>,
  \<^verbatim>\<open>minus-list\<close> for \<^verbatim>\<open>-\<close>.
\<close>

theorem unordered_list_class:
  assumes "unordered_list_parse P ls ps = Inr (Some nd, ls', ps')"
  shows "\<exists>l rest marker. ls = l # rest \<and> l \<noteq> [] \<and> marker = hd l \<and> name nd = ''ul''
           \<and> (marker = CHR ''*'' \<and> attributes nd = Some [(''class'', VStr ''star-list'')]
              \<or> marker = CHR ''+'' \<and> attributes nd = Some [(''class'', VStr ''plus-list'')]
              \<or> marker = CHR ''-'' \<and> attributes nd = Some [(''class'', VStr ''minus-list'')])"
proof -
  obtain its style ls1 where c: "collect_items unordered_re hd None [] ls = (its, style, ls1)"
    by (metis surj_pair)
  have ne: "its \<noteq> []" and "style \<noteq> None"
    using assms c by (auto simp: unordered_list_parse_def split: option.splits if_splits)
  from collect_items_inv[OF marker_regex_unordered c] ne
  obtain m where m: "style = Some m" "m = hd (prefix (hd its))" "ls \<noteq> []" "hd (lines (hd its)) = hd ls"
    "list_all (collected unordered_re hd m) its" by auto
  then have "collected unordered_re hd m (hd its)" using ne by (cases its) auto
  then have re: "unordered_re (hd ls) = Some (prefix (hd its))" using m(4)
    by (auto simp: collected_def split: list.splits)
  from unordered_re_SomeD[OF re] m(2)
  have mk: "m = hd (hd ls)" "hd (hd ls) \<in> {CHR ''+'', CHR ''*'', CHR ''-''}" "hd ls \<noteq> []"
    by (auto simp: blankline_def)
  from unordered_list_parse_Inr(1)[OF c[unfolded m(1)] ne m(5) assms]
  have nd: "name nd = ''ul''" "attributes nd = Some [(''class'', ulclass m)]" by auto
  obtain l rest where lr: "ls = l # rest" using m(3) by (cases ls) auto
  show ?thesis
    using lr mk nd by (auto simp: ulclass_def)
qed

theorem unordered_list_class_witness:
  "unordered_list_parse example_parsers [''+ a'', ''text''] init
     = Inr (Some (Node ''ul'' (Some [(''class'', VStr ''plus-list'')])
                    (Some [Node ''li'' None
                             (Some [Node ''text'' None None (Some ''a'') (Some ''inline'') None None])
                             None None None None])
                    None None None None),
            [''text''], init)"
proof -
  have e: "unordered_list_parse example_parsers [''+ a'', ''text''] init
     = Inr (Some (Node ''ul'' (Some [(''class'', VStr ''plus-list'')])
                    (Some [Node ''li'' None
                             (Some [Node ''text'' None None (Some ''a'') (Some ''inline'') None None])
                             None None None None])
                    None None None None),
            [''text''], init)"
    by code_simp
  from unordered_list_class[OF e] e show ?thesis by simp
qed

subsection \<open>Evaluating the engines\<close>

text \<open>The definitions that a run of the engines on a concrete document unfolds.\<close>

lemmas run =
  scratchmark_def parse_document_def normalize_def trimRight_def is_white_def
  footnote_def_postprocess_def
  parse_blocks_at_def blockparsers_def header_parse_def header_re_def startsWith_def endsWith_def
  blockquote_parse_def grablines_def indented_codeblock_parse_def fenced_codeblock_parse_def fence_def
  fencehandler_def
  unordered_list_parse_def ordered_list_parse_def horizontal_rule_parse_def footnote_def_parse_def
  footnote_re_def href_def_parse_def href_re_def html_groups_parse_def html_groups_re_def to_lower_def
  html_tags_parse_def html_tags_re_def table_parse_def row_def
  is_alignment_cell_def
  unordered_re_def ordered_re_def is_digit_def is_letter_def is_roman_def is_alnum_def closes_def
  list_item_def checkmarker_def blankline_def indented_def collect_items_None collect_items_Some
  push_text_def parse_inline_text_def parse_inline_at_def inlineparsers_def
  delimited_def capture_def a_parser_def img_parser_def re_exec_def ender_indexOf_def
  text_node_def element_def slice_def strip_closing_hashes_def grab_def no_process_def unquote_def
  strip_spaces_def leading_spaces_def dedent_item_def deblank_def checkloose_def li_nodes_def getstyle_def
  ulclass_def unescape_fence_def alignment_of_def left_marked_def right_marked_def omit_def eq_minus1_def Let_def init_def

lemmas post = obj_get_def truthy_def object_prototype_def to_string_def decimal.simps tree_printer_def
  attr_get_def

lemmas pr = apply_printer_def printers_def attributes_text_def indent_lines_def example_engine_def
  string_is_minus1_def trim_def eval_nat_numeral

subsection \<open>Fences\<close>

text \<open>
  Claim C4 says that a \<^verbatim>\<open>config\<close> fence sets \<^verbatim>\<open>config[key]\<close> for each line
  \<^verbatim>\<open>key: value\<close> and yields an \<^verbatim>\<open>omit\<close> node. The source does neither: whatever follows
  the opening line, \<^verbatim>\<open>fenced_codeblock.parse\<close> throws a ReferenceError when it evaluates
  the argument \<^verbatim>\<open>children\<close> of the call of the handler.
\<close>

theorem fence_config_throws:
  "fenced_codeblock_parse P ((fence @ ''config'') # rest) ps = Inl ReferenceError"
  by (simp add: fenced_codeblock_parse_def fencehandler_def fence_def startsWith_def split: prod.splits)

subsection \<open>Tables\<close>

text \<open>The cells of a row, \<^verbatim>\<open>line.split('|').slice(1, -1)\<close>, and the test of \<^verbatim>\<open>table.row\<close>
  for a row of alignment markers.\<close>

definition columns :: "string \<Rightarrow> string list" where
  "columns line = butlast (tl (split_on (CHR ''|'') line))"

definition alignment_row :: "string \<Rightarrow> bool" where
  "alignment_row line = list_all (\<lambda>c. c \<noteq> [] \<and> is_alignment_cell c) (columns line)"

lemma cells_ok:
  "\<forall>c\<in>set cols. \<forall>ps. \<exists>r. pi c ps = Inr r \<Longrightarrow> \<exists>tds ps'. cells pi cols ps = Inr (tds, ps')"
proof (induction cols arbitrary: ps)
  case Nil
  then show ?case by simp
next
  case (Cons c cols)
  obtain cs ps1 where p: "pi c ps = Inr (cs, ps1)" using Cons.prems by (metis list.set_intros(1) surj_pair)
  have "\<exists>tds ps2. cells pi cols ps1 = Inr (tds, ps2)" using Cons.IH[of ps1] Cons.prems by simp
  then obtain tds ps2 where t: "cells pi cols ps1 = Inr (tds, ps2)" by blast
  show ?case using p t by simp
qed

lemma row_data:
  assumes "startsWith l ''|''" "\<not> alignment_row l"
  shows "row pi l k ps = bindE (cells pi (columns l) ps) (\<lambda>(tds, ps'). Inr (Row (element ''tr'' tds), ps'))"
  using assms by (simp add: row_def alignment_row_def columns_def)

lemma table_rows_data:
  assumes "\<forall>l\<in>set rows. startsWith l ''|'' \<and> \<not> alignment_row l"
    and "rest = [] \<or> \<not> startsWith (hd rest) ''|''"
  shows "table_rows pi k acc al ar (rows @ rest) ps = Inr r \<Longrightarrow>
           \<exists>new ps'. r = (acc @ new, al, ar, rest, ps') \<and> length new = length rows"
    and "\<forall>l\<in>set rows. \<forall>c\<in>set (columns l). \<forall>ps. \<exists>r. pi c ps = Inr r \<Longrightarrow>
           \<exists>r. table_rows pi k acc al ar (rows @ rest) ps = Inr r"
  using assms(1)
proof (induction rows arbitrary: k acc ps)
  case Nil
  {
    case 1
    then show ?case using assms(2) by (cases rest) (auto simp: row_def)
  next
    case 2
    then show ?case using assms(2) by (cases rest) (auto simp: row_def)
  }
next
  case (Cons l rows)
  {
    case 1
    have l: "startsWith l ''|''" "\<not> alignment_row l" using 1(2) by auto
    obtain tds ps1 where c: "cells pi (columns l) ps = Inr (tds, ps1)"
      using 1(1) row_data[OF l, of pi "k + 1" ps]
      by (cases "cells pi (columns l) ps") auto
    have "table_rows pi (k + 1) (acc @ [element ''tr'' tds]) al ar (rows @ rest) ps1 = Inr r"
      using 1(1) row_data[OF l, of pi "k + 1" ps] c by simp
    from Cons.IH(1)[OF this] 1(2) obtain new ps' where
      "r = ((acc @ [element ''tr'' tds]) @ new, al, ar, rest, ps')" "length new = length rows" by auto
    then show ?case by (intro exI[of _ "element ''tr'' tds # new"]) auto
  next
    case 2
    have l: "startsWith l ''|''" "\<not> alignment_row l" using 2(2) by auto
    obtain tds ps1 where c: "cells pi (columns l) ps = Inr (tds, ps1)"
      using cells_ok[of "columns l" pi ps] 2(1) by auto
    have "\<exists>r. table_rows pi (k + 1) (acc @ [element ''tr'' tds]) al ar (rows @ rest) ps1 = Inr r"
      using Cons.IH(2) 2 by auto
    then show ?case using row_data[OF l, of pi "k + 1" ps] c by simp
  }
qed

text \<open>
  Claim C3 says that a table without a row of alignment markers gives a \<^verbatim>\<open>table\<close> node
  with a single \<^verbatim>\<open>tbody\<close>. The source never returns a node for such a table: for one or
  more contiguous lines that start with \<^verbatim>\<open>|\<close>, none of them a row of alignment markers,
  \<^verbatim>\<open>table.parse\<close> ends in an exception, and when \<^verbatim>\<open>parse_inline\<close> returns for the cells
  the exception is the TypeError of \<^verbatim>\<open>alignment.length\<close> on the variable that was never
  assigned.
\<close>

theorem table_without_alignment_row:
  assumes "rows \<noteq> []"
    and "\<forall>l\<in>set rows. startsWith l ''|'' \<and> \<not> alignment_row l"
    and "rest = [] \<or> \<not> startsWith (hd rest) ''|''"
  shows "(\<exists>e. table_parse P (rows @ rest) ps = Inl e)
       \<and> ((\<forall>l\<in>set rows. \<forall>c\<in>set (columns l). \<forall>ps'. \<exists>r. parse_inline P c ps' = Inr r)
            \<longrightarrow> table_parse P (rows @ rest) ps = Inl TypeError)"
proof -
  let ?t = "table_rows (parse_inline P) 0 [] None (- 1) (rows @ rest) ps"
  have a: "\<And>r. ?t = Inr r \<Longrightarrow> table_parse P (rows @ rest) ps = Inl TypeError"
  proof -
    fix r assume r: "?t = Inr r"
    from table_rows_data(1)[OF assms(2,3) r] obtain new ps' where
      "r = ([] @ new, None, - 1, rest, ps')" "length new = length rows" by blast
    moreover have "new \<noteq> []" using calculation(2) assms(1) by auto
    ultimately show "table_parse P (rows @ rest) ps = Inl TypeError"
      using r by (simp add: table_parse_def)
  qed
  have b: "\<And>e. ?t = Inl e \<Longrightarrow> table_parse P (rows @ rest) ps = Inl e"
    by (simp add: table_parse_def)
  have 1: "\<exists>e. table_parse P (rows @ rest) ps = Inl e"
    using a b by (cases ?t) auto
  have 2: "(\<forall>l\<in>set rows. \<forall>c\<in>set (columns l). \<forall>ps'. \<exists>r. parse_inline P c ps' = Inr r)
            \<longrightarrow> table_parse P (rows @ rest) ps = Inl TypeError"
    using table_rows_data(2)[OF assms(2,3), of "parse_inline P" 0 "[]" None "- 1" ps] a by blast
  show ?thesis using 1 2 by blast
qed

theorem table_without_alignment_row_witness:
  "table_parse example_parsers [''| Cell 1 | Cell 2 |'', ''| Cell 3 | Cell 4 |'', ''after''] init
     = Inl TypeError"
proof -
  let ?rows = "[''| Cell 1 | Cell 2 |'', ''| Cell 3 | Cell 4 |'']"
  have cols: "columns ''| Cell 1 | Cell 2 |'' = ['' Cell 1 '', '' Cell 2 '']"
             "columns ''| Cell 3 | Cell 4 |'' = ['' Cell 3 '', '' Cell 4 '']"
    by (simp_all add: columns_def)
  have h1: "?rows \<noteq> []" by simp
  have h2: "\<forall>l\<in>set ?rows. startsWith l ''|'' \<and> \<not> alignment_row l"
    by (simp add: alignment_row_def cols is_alignment_cell_def startsWith_def)
  have h3: "[''after''] = [] \<or> \<not> startsWith (hd [''after'']) ''|''"
    by (simp add: startsWith_def)
  have h4: "\<forall>l\<in>set ?rows. \<forall>c\<in>set (columns l). \<forall>ps'. \<exists>r. parse_inline example_parsers c ps' = Inr r"
    by (simp add: cols example_parsers_def eval_nat_numeral run)
  from table_without_alignment_row[OF h1 h2 h3, of example_parsers init] h4
  show ?thesis by simp
qed

subsection \<open>The top level\<close>

text \<open>
  Claim C2 says that the top-level parse completes for every document. It does not: for
  the two-row table below, without a row of alignment markers, \<^verbatim>\<open>scratchmark\<close> throws a
  TypeError, with every engine, every printer and every budget of three or more steps.
\<close>

theorem scratchmark_throws_on_table:
  "scratchmark E (Suc (Suc (Suc n))) (''| Cell 1 | Cell 2 |'' @ [CHR 0x0A] @ ''| Cell 3 | Cell 4 |'') printer = Inl TypeError"
  by (simp add: run)

text \<open>
  Claim C6 says that the citations \<^verbatim>\<open>[^x]\<close>, \<^verbatim>\<open>[^y]\<close>, \<^verbatim>\<open>[^x]\<close>, in that document order,
  get the numbers 1, 2, 1. In the document below the first citation is plain text before a
  heading. \<^verbatim>\<open>parse_blocks\<close> runs the inline engine on the heading before it flushes the
  text, so \<^verbatim>\<open>cites\<close> receives \<^verbatim>\<open>y\<close> first, and the numbers are 2, 1, 2.
\<close>

theorem footnote_numbers_follow_parse_order:
  "scratchmark E (Suc (Suc (Suc (Suc (Suc (Suc (Suc (Suc (Suc (Suc n))))))))))
     (''[^x]'' @ [CHR 0x0A] @ ''# [^y]'' @ [CHR 0x0A] @ ''[^x]'' @ [CHR 0x0A]
      @ ''[^x]: a'' @ [CHR 0x0A] @ ''[^y]: b'')
     (Some tree_printer)
   = Inr (Printed (POther 
         [Node ''sup'' None
           (Some
             [Node ''a'' (Some [(''href'', VStr ''#footnote_2'')])
               (Some [Node ''text'' None None (Some ''2'') None None None])
               None None (Some (VNum 2)) (Some 1)])
           None (Some ''inline'') None None,
          Node ''h1'' None
           (Some
             [Node ''sup'' None
               (Some
                 [Node ''a'' (Some [(''href'', VStr ''#footnote_1'')])
                   (Some
                     [Node ''text'' None None (Some ''1'') None None None])
                   None None (Some (VNum 1)) (Some 0)])
               None (Some ''inline'') None None])
           None None None None,
          Node ''sup'' None
           (Some
             [Node ''a'' (Some [(''href'', VStr ''#footnote_2'')])
               (Some [Node ''text'' None None (Some ''2'') None None None])
               None None (Some (VNum 2)) (Some 2)])
           None (Some ''inline'') None None,
          Node ''div'' (Some [(''class'', VStr ''footnotes'')])
           (Some
             [Arr [Node ''ol''
                    (Some [(''start'', VStr ''1''), (''type'', VStr ''1'')])
                    (Some
                      [Node ''li'' (Some [(''id'', VStr ''footnote_1'')])
                        (Some
                          [Node ''text'' None None (Some ''b'')
                            (Some ''inline'') None None])
                        None None None None,
                       Node ''li'' (Some [(''id'', VStr ''footnote_2'')])
                        (Some
                          [Node ''text'' None None (Some ''a'')
                            (Some ''inline'') None None])
                        None None None None])
                    None None None None]])
           None None None None]))"
  by (simp add: run post)

text \<open>
  Claim C9 says that two adjacent list items whose markers differ in style class (for an
  ordered list the numbering class with the closing mark) give two list nodes. The classes
  of lower-case and of upper-case letters are different, and \<^verbatim>\<open>getstyle\<close> tells them
  apart by \<^verbatim>\<open>'ABCDEFGHIJK'.includes(prefix[0])\<close>: an upper-case letter after \<^verbatim>\<open>K\<close> that is
  not a roman digit falls through to the class of the lower-case letters. So in the first
  document below the item \<^verbatim>\<open>N.\<close> continues the list that \<^verbatim>\<open>a.\<close> began, and the result is a
  single \<^verbatim>\<open>ol\<close> of type \<^verbatim>\<open>a\<close> with both items, with every engine and every budget of
  five or more steps. In the second document \<^verbatim>\<open>A.\<close> follows \<^verbatim>\<open>a.\<close>, and there are two
  lists.
\<close>

theorem upper_case_marker_joins_lower_case_list:
  "getstyle ''a. '' = ''a.'' \<and> getstyle ''N. '' = ''a.'' \<and> getstyle ''A. '' = ''A.''
   \<and> scratchmark E (Suc (Suc (Suc (Suc (Suc n))))) (''a. x'' @ [CHR 0x0A] @ ''N. y'')
        (Some tree_printer)
      = Inr (Printed (POther
          [Node ''ol'' (Some [(''start'', VStr ''a''), (''type'', VStr ''a'')])
             (Some [Node ''li'' None
                      (Some [Node ''text'' None None (Some ''x'') (Some ''inline'') None None])
                      None None None None,
                    Node ''li'' None
                      (Some [Node ''text'' None None (Some ''y'') (Some ''inline'') None None])
                      None None None None])
             None None None None]))
   \<and> scratchmark E (Suc (Suc (Suc (Suc (Suc n))))) (''a. x'' @ [CHR 0x0A] @ ''A. y'')
        (Some tree_printer)
      = Inr (Printed (POther
          [Node ''ol'' (Some [(''start'', VStr ''a''), (''type'', VStr ''a'')])
             (Some [Node ''li'' None
                      (Some [Node ''text'' None None (Some ''x'') (Some ''inline'') None None])
                      None None None None])
             None None None None,
           Node ''ol'' (Some [(''start'', VStr ''A''), (''type'', VStr ''A'')])
             (Some [Node ''li'' None
                      (Some [Node ''text'' None None (Some ''y'') (Some ''inline'') None None])
                      None None None None])
             None None None None]))"
  by (simp add: run post)

text \<open>
  Claim C1, as amended. Without a printer argument \<^verbatim>\<open>scratchmark\<close> prints the tree with
  \<^verbatim>\<open>html_printer\<close> and returns the string (or the \<^verbatim>\<open>config\<close> object with the string as
  \<^verbatim>\<open>body\<close>, when \<^verbatim>\<open>config\<close> is not empty); it never returns the tree. The tree is
  returned as it is when the printer \<^verbatim>\<open>(tree) => tree\<close> is passed.
\<close>

theorem scratchmark_default_printer:
  "scratchmark E n doc None
     = bindE (parse_document E n doc) (\<lambda>(ast, ps).
         bindE (html_printer E (Arr ast) []) (\<lambda>s.
           Inr (if config ps = [] then Printed (PString s)
                else Config (obj_set (config ps) ''body'' (VStr s)))))
   \<and> scratchmark E n doc (Some tree_printer)
     = bindE (parse_document E n doc) (\<lambda>(ast, ps). Inr (Printed (POther ast)))
   \<and> scratchmark E n doc None \<noteq> Inr (Printed (POther tree))"
proof -
  have 1: "scratchmark E n doc None
     = bindE (parse_document E n doc) (\<lambda>(ast, ps).
         bindE (html_printer E (Arr ast) []) (\<lambda>s.
           Inr (if config ps = [] then Printed (PString s)
                else Config (obj_set (config ps) ''body'' (VStr s)))))"
  proof (cases "parse_document E n doc")
    case (Inl e)
    then show ?thesis by (simp add: scratchmark_def)
  next
    case (Inr r)
    obtain ast ps where r: "r = (ast, ps)" by (cases r)
    show ?thesis
      by (cases "html_printer E (Arr ast) []") (simp_all add: scratchmark_def Inr r)
  qed
  have 2: "scratchmark E n doc (Some tree_printer)
     = bindE (parse_document E n doc) (\<lambda>(ast, ps). Inr (Printed (POther ast)))"
    by (cases "parse_document E n doc") (auto simp: scratchmark_def tree_printer_def)
  have 3: "scratchmark E n doc None \<noteq> Inr (Printed (POther tree))"
  proof (cases "parse_document E n doc")
    case (Inl e)
    then show ?thesis by (simp add: 1)
  next
    case (Inr r)
    obtain ast ps where r: "r = (ast, ps)" by (cases r)
    show ?thesis
      by (cases "html_printer E (Arr ast) []") (simp_all add: 1 Inr r)
  qed
  show ?thesis using 1 2 3 by blast
qed

text \<open>
  Claim C1 as stated fails: for the document \<^verbatim>\<open># Title\<close> the call without a printer
  returns the HTML text, not the tree that the tree printer shows.
\<close>

theorem scratchmark_default_counterexample:
  "scratchmark example_engine 5 ''# Title'' (None :: (ast list \<Rightarrow> (ast list) printed) option)
     = Inr (Printed (PString (''<h1>'' @ [CHR 0x0A] @ ''    Title'' @ [CHR 0x0A] @ ''</h1>'' @ [CHR 0x0A])))
   \<and> scratchmark example_engine 5 ''# Title'' (Some tree_printer)
     = Inr (Printed (POther [Node ''h1'' None
                               (Some [Node ''text'' None None (Some ''Title'') (Some ''inline'') None None])
                               None None None None]))"
  by (simp add: run post pr)

text \<open>
  Claim C5 as stated fails: the node of a horizontal rule and the node of an image have
  neither \<^verbatim>\<open>children\<close> nor \<^verbatim>\<open>text\<close>.
\<close>

theorem node_without_children_or_text_counterexample:
  "scratchmark example_engine 5 (''---'' @ [CHR 0x0A] @ ''![alt](pic.png)'') (Some tree_printer)
     = Inr (Printed (POther
         [Node ''hr'' None None None None None None,
          Node ''img'' (Some [(''src'', VStr ''pic.png''), (''alt'', VStr ''alt'')]) None None
            (Some ''inline'') None (Some 0)]))"
  by (simp add: run post pr trim_def)

subsection \<open>Every node has children or text, or is a void element\<close>

text \<open>
  \<open>node_ok x\<close>: every node in \<open>x\<close>, at any depth, has a \<^verbatim>\<open>children\<close> field or a
  \<^verbatim>\<open>text\<close> field, or is named \<^verbatim>\<open>hr\<close> or \<^verbatim>\<open>img\<close>. Strings and
  \<^verbatim>\<open>undefined\<close> among the children of a \<^verbatim>\<open>verbatim\<close> node are not nodes.
\<close>

fun node_ok :: "ast \<Rightarrow> bool" where
  "node_ok (Node n a None t ty k i) = (t \<noteq> None \<or> n = ''hr'' \<or> n = ''img'')"
| "node_ok (Node n a (Some cs) t ty k i) = list_all node_ok cs"
| "node_ok (Arr xs) = list_all node_ok xs"
| "node_ok (Str s) = True"
| "node_ok Undefined = True"

lemma node_ok_text_node [simp]: "node_ok (text_node s)"
  by (simp add: text_node_def)

lemma node_ok_element [simp]: "node_ok (element n cs) = list_all node_ok cs"
  by (simp add: element_def)

lemma node_ok_set_type [simp]: "node_ok (set_type t' x) = node_ok x"
proof (cases x)
  case (Node n a c t ty k i)
  then show ?thesis by (cases c) simp_all
qed simp_all

lemma node_ok_set_attributes [simp]: "node_ok (set_attributes a' x) = node_ok x"
proof (cases x)
  case (Node n a c t ty k i)
  then show ?thesis by (cases c) simp_all
qed simp_all

lemma list_all_set_type [simp]: "list_all node_ok (map (set_type t) xs) = list_all node_ok xs"
  by (induction xs) auto

text \<open>
  The invariant is proved engine by engine. \<open>good_inline\<close> and \<open>good_parsers\<close> say that
  the parse functions handed to a parser return such nodes only; \<open>good_iparser\<close> and
  \<open>good_bparser\<close> say that a parser then returns such a node, where a block parser may
  also return the \<^verbatim>\<open>omit\<close> node, which \<^verbatim>\<open>parse_blocks\<close> drops.
\<close>

definition good_inline :: "inline_fn \<Rightarrow> bool" where
  "good_inline pi = (\<forall>st e ps cs st' ps'. pi st e ps = Inr (cs, st', ps') \<longrightarrow> list_all node_ok cs)"

definition good_iparser :: "iparser \<Rightarrow> bool" where
  "good_iparser p = (\<forall>pi st ps nd st' ps'. good_inline pi \<longrightarrow>
       ip_parse p pi st ps = Inr (Some nd, st', ps') \<longrightarrow> node_ok nd)"

lemma good_inlineD:
  "good_inline pi \<Longrightarrow> pi st e ps = Inr (cs, st', ps') \<Longrightarrow> list_all node_ok cs"
  unfolding good_inline_def by blast

lemma bindE_InrD: "bindE m f = Inr r \<Longrightarrow> \<exists>x. m = Inr x \<and> f x = Inr r"
  by (cases m) auto

lemma good_delimited: "good_iparser (delimited nm s e)"
  by (auto simp: good_iparser_def delimited_def dest!: bindE_InrD dest: good_inlineD)

lemma good_capture_plain: "good_iparser (capture nm s e no_process f)"
  by (auto simp: good_iparser_def capture_def no_process_def
           split: prod.splits option.splits dest!: bindE_InrD)

lemma footnote_cite_process_ok:
  "footnote_cite_process x ps = Inr (nd, ps') \<Longrightarrow> node_ok x \<Longrightarrow> node_ok nd"
  by (induction x ps rule: footnote_cite_process.induct) (auto simp: Let_def)

lemma good_capture_cite: "good_iparser (capture nm s e footnote_cite_process f)"
  by (auto simp: good_iparser_def capture_def
           split: prod.splits option.splits dest!: bindE_InrD footnote_cite_process_ok)

lemma good_a_parser: "good_iparser (a_parser E)"
  unfolding good_iparser_def
proof (intro allI impI)
  fix pi st ps nd st' ps'
  assume g: "good_inline pi" and r: "ip_parse (a_parser E) pi st ps = Inr (Some nd, st', ps')"
  from r obtain cs st1 ps1 where
    p: "pi (st\<lparr>cursor := cursor st + 1\<rparr>) (Some '']('') ps = Inr (cs, st1, ps1)"
    by (auto simp: a_parser_def dest!: bindE_InrD)
  have ok: "list_all node_ok cs" using good_inlineD[OF g p] .
  show "node_ok nd"
    using r p ok
    by (auto simp: a_parser_def Let_def split: prod.splits option.splits if_splits)
qed

lemma good_img_parser: "good_iparser (img_parser E)"
  by (auto simp: good_iparser_def img_parser_def Let_def
           split: prod.splits option.splits if_splits)

lemma good_inlineparsers: "\<forall>p\<in>set (inlineparsers E). good_iparser p"
  by (simp add: inlineparsers_def good_delimited good_capture_plain good_capture_cite
                good_a_parser good_img_parser)

lemma nearest_sub:
  "nearest cps text cur idx first = (idx', first', kept) \<Longrightarrow>
     set kept \<subseteq> set cps \<and> (first' = first \<or> (\<exists>p\<in>set cps. first' = Some p))"
proof (induction cps arbitrary: idx first idx' first' kept)
  case Nil
  then show ?case by simp
next
  case (Cons p cps)
  show ?case
  proof (cases "ip_indexOf p text cur")
    case None
    then show ?thesis using Cons.prems Cons.IH[of idx first idx' first' kept] by auto
  next
    case (Some idxp)
    obtain i2 f2 k2 where r: "nearest cps text cur (if idxp < idx then idxp else idx)
                  (if idxp < idx then Some p else first) = (i2, f2, k2)"
      by (metis surj_pair)
    then have "kept = p # k2" "first' = f2" using Cons.prems Some by auto
    then show ?thesis using Cons.IH[OF r] by (auto split: if_splits)
  qed
qed

lemma inline_loop_ok:
  "inline_loop E n e cps acc st ps = Inr (ast, st', ps') \<Longrightarrow> list_all node_ok acc \<Longrightarrow>
   set cps \<subseteq> set (inlineparsers E) \<Longrightarrow> list_all node_ok ast"
proof (induction n arbitrary: e cps acc st ps ast st' ps')
  case 0
  then show ?case by simp
next
  case (Suc n)
  let ?pi = "\<lambda>st' e' ps'. inline_loop E n e' (inlineparsers E) [] st' ps'"
  have gpi: "good_inline ?pi"
    unfolding good_inline_def using Suc.IH[of _ "inlineparsers E" "[]"] by auto
  show ?case
  proof (cases "cursor st < length (itext st)")
    case False
    then show ?thesis using Suc.prems by auto
  next
    case True
    obtain idx first cps' where
      nr: "nearest cps (itext st) (cursor st) (ender_indexOf e (itext st) (cursor st)) None
             = (idx, first, cps')" by (metis surj_pair)
    define ast1 where "ast1 = (if idx > cursor st
                          then acc @ [text_node (noesc (slice (itext st) (cursor st) idx))]
                          else acc)"
    define st1 where "st1 = (if idx > cursor st then st\<lparr>cursor := idx\<rparr> else st)"
    have ok1: "list_all node_ok ast1" using Suc.prems(2) by (simp add: ast1_def)
    from nearest_sub[OF nr] have sub: "set cps' \<subseteq> set (inlineparsers E)"
      and fst: "first = None \<or> (\<exists>p\<in>set cps. first = Some p)"
      using Suc.prems(3) by auto
    have unfold: "inline_loop E (Suc n) e cps acc st ps =
       (case first of
          None \<Rightarrow> Inr (map (set_type ''inline'') ast1, st1, ps)
        | Some p \<Rightarrow>
            bindE (ip_parse p ?pi st1 ps)
              (\<lambda>(node, st2, ps2).
                 case node of
                   Some nd \<Rightarrow> inline_loop E n e cps' (ast1 @ [nd]) st2 ps2
                 | None \<Rightarrow>
                     if cursor st2 < length (itext st2) then
                       inline_loop E n e cps'
                         (ast1 @ [text_node (noesc [itext st2 ! cursor st2])])
                         (st2\<lparr>cursor := Suc (cursor st2)\<rparr>) ps2
                     else Inl TypeError))"
      unfolding ast1_def st1_def using True nr
      by (cases "cursor st < idx") (simp_all add: Let_def)
    show ?thesis
    proof (cases first)
      case None
      then show ?thesis using Suc.prems(1)[unfolded unfold] ok1 by auto
    next
      case (Some p)
      then have "p \<in> set (inlineparsers E)" using fst Suc.prems(3) by auto
      then have gp: "good_iparser p" using good_inlineparsers by blast
      have "bindE (ip_parse p ?pi st1 ps)
              (\<lambda>(node, st2, ps2).
                 case node of
                   Some nd \<Rightarrow> inline_loop E n e cps' (ast1 @ [nd]) st2 ps2
                 | None \<Rightarrow>
                     if cursor st2 < length (itext st2) then
                       inline_loop E n e cps'
                         (ast1 @ [text_node (noesc [itext st2 ! cursor st2])])
                         (st2\<lparr>cursor := Suc (cursor st2)\<rparr>) ps2
                     else Inl TypeError) = Inr (ast, st', ps')"
        using Suc.prems(1)[unfolded unfold Some] by simp
      then obtain node st2 ps2 where
        pp: "ip_parse p ?pi st1 ps = Inr (node, st2, ps2)"
        and k: "(case node of
                   Some nd \<Rightarrow> inline_loop E n e cps' (ast1 @ [nd]) st2 ps2
                 | None \<Rightarrow>
                     if cursor st2 < length (itext st2) then
                       inline_loop E n e cps'
                         (ast1 @ [text_node (noesc [itext st2 ! cursor st2])])
                         (st2\<lparr>cursor := Suc (cursor st2)\<rparr>) ps2
                     else Inl TypeError) = Inr (ast, st', ps')"
        by (auto dest!: bindE_InrD)
      show ?thesis
      proof (cases node)
        case None
        then have "inline_loop E n e cps'
                         (ast1 @ [text_node (noesc [itext st2 ! cursor st2])])
                         (st2\<lparr>cursor := Suc (cursor st2)\<rparr>) ps2 = Inr (ast, st', ps')"
          using k by (auto split: if_splits)
        from Suc.IH[OF this _ sub] ok1 show ?thesis by simp
      next
        case (Some nd)
        then have "node_ok nd" using gp gpi pp unfolding good_iparser_def by blast
        moreover have "inline_loop E n e cps' (ast1 @ [nd]) st2 ps2 = Inr (ast, st', ps')"
          using k Some by simp
        ultimately show ?thesis using Suc.IH[OF _ _ sub, of e "ast1 @ [nd]" st2 ps2 ast st' ps'] ok1
          by simp
      qed
    qed
  qed
qed

lemma parse_inline_text_ok:
  "parse_inline_text E n s ps = Inr (ast, ps') \<Longrightarrow> list_all node_ok ast"
  by (auto simp: parse_inline_text_def parse_inline_at_def dest!: bindE_InrD
           dest: inline_loop_ok[where acc="[]" and cps="inlineparsers E"])

definition good_parsers :: "parsers2 \<Rightarrow> bool" where
  "good_parsers P =
     ((\<forall>ls ps cs ps'. parse_blocks P ls ps = Inr (cs, ps') \<longrightarrow> list_all node_ok cs)
      \<and> (\<forall>s ps cs ps'. parse_inline P s ps = Inr (cs, ps') \<longrightarrow> list_all node_ok cs))"

lemma good_parsers_blocks:
  "good_parsers P \<Longrightarrow> parse_blocks P ls ps = Inr (cs, ps') \<Longrightarrow> list_all node_ok cs"
  unfolding good_parsers_def by blast

lemma good_parsers_inline:
  "good_parsers P \<Longrightarrow> parse_inline P s ps = Inr (cs, ps') \<Longrightarrow> list_all node_ok cs"
  unfolding good_parsers_def by blast

definition block_ok :: "ast \<Rightarrow> bool" where
  "block_ok nd = (node_ok nd \<or> nd = omit)"

definition good_bparser :: "(parsers2 \<Rightarrow> string list \<Rightarrow> pstate \<Rightarrow> block_result) \<Rightarrow> bool" where
  "good_bparser f = (\<forall>P ls ps nd ls' ps'. good_parsers P \<longrightarrow>
       f P ls ps = Inr (Some nd, ls', ps') \<longrightarrow> block_ok nd)"

lemma good_header: "good_bparser header_parse"
  unfolding good_bparser_def
proof (intro allI impI)
  fix P ls ps nd ls' ps'
  assume g: "good_parsers P" and r: "header_parse P ls ps = Inr (Some nd, ls', ps')"
  then obtain l rest p cs where "ls = l # rest" "header_re l = Some p"
    "parse_inline P (strip_closing_hashes (drop (length p) l)) ps = Inr (cs, ps')"
    "nd = element (''h'' @ decimal (length p - 1)) cs"
    by (auto simp: header_parse_def split: list.splits option.splits dest!: bindE_InrD)
  then show "block_ok nd" using good_parsers_inline[OF g] by (auto simp: block_ok_def)
qed

lemma good_blockquote: "good_bparser blockquote_parse"
  unfolding good_bparser_def
proof (intro allI impI)
  fix P ls ps nd ls' ps'
  assume g: "good_parsers P" and r: "blockquote_parse P ls ps = Inr (Some nd, ls', ps')"
  then obtain quoted cs where
    "parse_blocks P (map unquote quoted) ps = Inr (cs, ps')" "nd = element ''blockquote'' cs"
    by (auto simp: blockquote_parse_def split: prod.splits if_splits dest!: bindE_InrD)
  then show "block_ok nd" using good_parsers_blocks[OF g] by (auto simp: block_ok_def)
qed

lemma good_indented_codeblock: "good_bparser indented_codeblock_parse"
  by (auto simp: good_bparser_def indented_codeblock_parse_def block_ok_def list_all_iff
           split: prod.splits if_splits)

lemma good_fenced_codeblock: "good_bparser fenced_codeblock_parse"
  by (auto simp: good_bparser_def fenced_codeblock_parse_def block_ok_def list_all_iff Let_def
           split: prod.splits if_splits list.splits)

lemma good_horizontal_rule: "good_bparser horizontal_rule_parse"
  by (auto simp: good_bparser_def horizontal_rule_parse_def block_ok_def
           split: if_splits list.splits)

lemma good_footnote_def: "good_bparser footnote_def_parse"
  by (auto simp: good_bparser_def footnote_def_parse_def block_ok_def Let_def
           split: if_splits list.splits option.splits prod.splits)

lemma good_href_def: "good_bparser href_def_parse"
  by (auto simp: good_bparser_def href_def_parse_def block_ok_def
           split: if_splits list.splits option.splits prod.splits)

lemma good_html_groups: "good_bparser html_groups_parse"
  by (auto simp: good_bparser_def html_groups_parse_def block_ok_def Let_def list_all_iff
           split: if_splits list.splits option.splits prod.splits)

lemma good_html_tags: "good_bparser html_tags_parse"
  by (auto simp: good_bparser_def html_tags_parse_def block_ok_def
           split: if_splits list.splits)

lemma map_blocks_ok:
  "(\<forall>ls ps cs ps'. pb ls ps = Inr (cs, ps') \<longrightarrow> list_all node_ok cs) \<Longrightarrow>
   map_blocks pb lss ps = Inr (css, ps') \<Longrightarrow> list_all (list_all node_ok) css"
proof (induction lss arbitrary: ps css ps')
  case Nil
  then show ?case by simp
next
  case (Cons ls lss)
  obtain cs ps1 where p: "pb ls ps = Inr (cs, ps1)"
    using Cons.prems(2) by (cases "pb ls ps") auto
  obtain css1 ps2 where m: "map_blocks pb lss ps1 = Inr (css1, ps2)"
    using Cons.prems(2) p by (cases "map_blocks pb lss ps1") auto
  have "css = cs # css1" using Cons.prems(2) p m by simp
  moreover have "list_all node_ok cs" using Cons.prems(1) p by blast
  ultimately show ?case using Cons.IH[OF Cons.prems(1) m] by simp
qed

lemma li_nodes_ok: "list_all (list_all node_ok) css \<Longrightarrow> list_all node_ok (li_nodes css)"
  by (induction css) (auto simp: li_nodes_def)

lemma good_unordered_list: "good_bparser unordered_list_parse"
  unfolding good_bparser_def
proof (intro allI impI)
  fix P ls ps nd ls' ps'
  assume g: "good_parsers P" and r: "unordered_list_parse P ls ps = Inr (Some nd, ls', ps')"
  then obtain lss ps0 css m where
    "map_blocks (parse_blocks P) lss ps0 = Inr (css, ps')"
    "nd = Node ''ul'' (Some [(''class'', ulclass m)]) (Some (li_nodes css)) None None None None"
    by (auto simp: unordered_list_parse_def split: prod.splits option.splits if_splits
             dest!: bindE_InrD)
  then show "block_ok nd"
    using map_blocks_ok[of "parse_blocks P"] good_parsers_blocks[OF g]
    by (auto simp: block_ok_def intro!: li_nodes_ok)
qed

lemma good_ordered_list: "good_bparser ordered_list_parse"
  unfolding good_bparser_def
proof (intro allI impI)
  fix P ls ps nd ls' ps'
  assume g: "good_parsers P" and r: "ordered_list_parse P ls ps = Inr (Some nd, ls', ps')"
  then obtain lss ps0 css a where
    "map_blocks (parse_blocks P) lss ps0 = Inr (css, ps')"
    "nd = Node ''ol'' a (Some (li_nodes css)) None None None None"
    by (auto simp: ordered_list_parse_def Let_def split: prod.splits option.splits if_splits
             dest!: bindE_InrD)
  then show "block_ok nd"
    using map_blocks_ok[of "parse_blocks P"] good_parsers_blocks[OF g]
    by (auto simp: block_ok_def intro!: li_nodes_ok)
qed

text \<open>\<open>solid\<close>: a node that has children, all of them as required. \<open>solid_row\<close>: a
  node whose children are solid, as a table row is.\<close>

fun solid :: "ast \<Rightarrow> bool" where
  "solid (Node n a (Some cs) t ty k i) = list_all node_ok cs"
| "solid x = False"

lemma solid_node_ok: "solid x \<Longrightarrow> node_ok x"
  by (induction x rule: solid.induct) auto

lemma solid_element [simp]: "solid (element n cs) = list_all node_ok cs"
  by (simp add: element_def)

lemma solid_set_name [simp]: "solid (set_name nm x) = solid x"
  by (induction x rule: solid.induct) auto

lemma solid_set_attributes [simp]: "solid (set_attributes a x) = solid x"
  by (induction x rule: solid.induct) auto

lemma style_cells_solid: "list_all solid cs \<Longrightarrow> list_all solid (style_cells al cs)"
  by (induction al cs rule: style_cells.induct) auto

lemma cells_solid:
  "(\<forall>s ps cs ps'. pi s ps = Inr (cs, ps') \<longrightarrow> list_all node_ok cs) \<Longrightarrow>
   cells pi cols ps = Inr (tds, ps') \<Longrightarrow> list_all solid tds"
proof (induction cols arbitrary: ps tds ps')
  case Nil
  then show ?case by simp
next
  case (Cons c cols)
  obtain cs ps1 where p: "pi c ps = Inr (cs, ps1)"
    using Cons.prems(2) by (cases "pi c ps") auto
  obtain tds1 ps2 where m: "cells pi cols ps1 = Inr (tds1, ps2)"
    using Cons.prems(2) p by (cases "cells pi cols ps1") auto
  have "tds = element ''td'' cs # tds1" using Cons.prems(2) p m by simp
  moreover have "list_all node_ok cs" using Cons.prems(1) p by blast
  ultimately show ?case using Cons.IH[OF Cons.prems(1) m] by simp
qed

fun solid_row :: "ast \<Rightarrow> bool" where
  "solid_row (Node n a (Some cs) t ty k i) = list_all solid cs"
| "solid_row x = False"

lemma solid_row_node_ok: "solid_row x \<Longrightarrow> node_ok x"
  by (induction x rule: solid_row.induct) (auto simp: list_all_iff dest: solid_node_ok)

lemma row_solid:
  assumes "\<forall>s ps cs ps'. pi s ps = Inr (cs, ps') \<longrightarrow> list_all node_ok cs"
    and "row pi l k ps = Inr (Row nd, ps')"
  shows "solid_row nd"
proof -
  from assms(2) obtain tds where "cells pi (butlast (tl (split_on (CHR ''|'') l))) ps = Inr (tds, ps')"
    "nd = element ''tr'' tds"
    by (auto simp: row_def Let_def split: if_splits dest!: bindE_InrD)
  then show ?thesis using cells_solid[OF assms(1)] by (auto simp: element_def)
qed

lemma table_rows_solid:
  assumes "\<forall>s ps cs ps'. pi s ps = Inr (cs, ps') \<longrightarrow> list_all node_ok cs"
  shows "table_rows pi k acc al ar ls ps = Inr (rows, al', ar', ls', ps') \<Longrightarrow>
         list_all solid_row acc \<Longrightarrow> list_all solid_row rows"
proof (induction ls arbitrary: k acc al ar ps)
  case Nil
  then show ?case by simp
next
  case (Cons l ls)
  from Cons.prems(1) obtain r ps1 where r: "row pi l (k + 1) ps = Inr (r, ps1)"
    and c: "(case r of
         NoRow \<Rightarrow> Inr (acc, al, ar, l # ls, ps1)
       | Alignment a \<Rightarrow> table_rows pi (k + 1) acc (Some a) (int (k + 1)) ls ps1
       | Row nd \<Rightarrow> table_rows pi (k + 1) (acc @ [nd]) al ar ls ps1) = Inr (rows, al', ar', ls', ps')"
    by (auto dest!: bindE_InrD)
  show ?case
  proof (cases r)
    case (Alignment a)
    then show ?thesis using c Cons.IH Cons.prems(2) by auto
  next
    case (Row nd)
    then have "solid_row nd" using row_solid[OF assms] r by blast
    then show ?thesis using c Row Cons.IH[of "k + 1" "acc @ [nd]" al ar ps1] Cons.prems(2) by auto
  next
    case NoRow
    then show ?thesis using c Cons.prems(2) by auto
  qed
qed

lemma solid_row_map_children:
  "solid_row x \<Longrightarrow> (\<And>cs. list_all solid cs \<Longrightarrow> list_all solid (f cs)) \<Longrightarrow>
   solid_row (map_children f x)"
  by (induction x rule: solid_row.induct) auto

lemma good_table: "good_bparser table_parse"
  unfolding good_bparser_def
proof (intro allI impI)
  fix P ls ps nd ls' ps'
  assume g: "good_parsers P" and r: "table_parse P ls ps = Inr (Some nd, ls', ps')"
  have pi: "\<forall>s ps cs ps'. parse_inline P s ps = Inr (cs, ps') \<longrightarrow> list_all node_ok cs"
    using good_parsers_inline[OF g] by blast
  from r obtain rows al ar where
    t: "table_rows (parse_inline P) 0 [] None (- 1) ls ps = Inr (rows, Some al, ar, ls', ps')"
    and ne: "rows \<noteq> []"
    and nd: "nd = (if length al > 0 then
                   (let styled = map (map_children (style_cells al)) rows;
                        head = (if ar = 2
                                then map_children (map (set_name ''th'')) (hd styled)
                                else hd styled)
                    in element ''table'' [element ''thead'' [head], element ''tbody'' (tl styled)])
                 else element ''table'' [element ''tbody'' rows])"
    by (auto simp: table_parse_def Let_def split: if_splits option.splits prod.splits
             dest!: bindE_InrD)
  have rows: "list_all solid_row rows" using table_rows_solid[OF pi t] by simp
  define styled where "styled = map (map_children (style_cells al)) rows"
  have st: "list_all solid_row styled"
    using rows unfolding styled_def
    by (auto simp: list_all_iff intro!: solid_row_map_children style_cells_solid)
  have sne: "styled \<noteq> []" using ne by (simp add: styled_def)
  then have h: "solid_row (hd styled)" "list_all solid_row (tl styled)"
    using st by (cases styled; simp)+
  have h2: "solid_row (map_children (map (set_name ''th'')) (hd styled))"
    using h(1) by (rule solid_row_map_children) (simp add: list_all_iff)
  have "node_ok nd"
    using nd rows h h2 unfolding styled_def[symmetric]
    by (auto simp: Let_def list_all_iff dest: solid_row_node_ok)
  then show "block_ok nd" by (simp add: block_ok_def)
qed

lemma good_bparserD:
  "good_bparser f \<Longrightarrow> good_parsers P \<Longrightarrow> f P ls ps = Inr (Some nd, ls', ps') \<Longrightarrow> block_ok nd"
  unfolding good_bparser_def by blast

lemma good_blockparsers: "\<forall>bp\<in>set blockparsers. good_bparser (bp_parse bp)"
  by (simp add: blockparsers_def good_header good_blockquote good_indented_codeblock
                good_fenced_codeblock good_unordered_list good_ordered_list good_horizontal_rule
                good_footnote_def good_href_def good_html_groups good_html_tags good_table)

lemma try_parsers_ok:
  "\<forall>bp\<in>set bps. good_bparser (bp_parse bp) \<Longrightarrow> good_parsers P \<Longrightarrow>
   try_parsers bps P ls ps = Inr (Some nd, ls', ps') \<Longrightarrow> block_ok nd"
proof (induction bps arbitrary: ls ps)
  case Nil
  then show ?case by simp
next
  case (Cons bp bps)
  from Cons.prems(3) obtain node ls1 ps1 where
    b: "bp_parse bp P ls ps = Inr (node, ls1, ps1)"
    and c: "(case node of Some nd \<Rightarrow> Inr (Some nd, ls1, ps1)
             | None \<Rightarrow> try_parsers bps P ls1 ps1) = Inr (Some nd, ls', ps')"
    by (auto dest!: bindE_InrD)
  show ?case
  proof (cases node)
    case None
    then show ?thesis using c Cons.IH[of ls1 ps1] Cons.prems(1,2) by simp
  next
    case (Some x)
    then have "x = nd" "ls1 = ls'" "ps1 = ps'" using c by auto
    moreover have "good_bparser (bp_parse bp)" using Cons.prems(1) by simp
    ultimately show ?thesis using good_bparserD[OF _ Cons.prems(2), of "bp_parse bp" ls ps nd ls' ps'] b Some
      by simp
  qed
qed

lemma push_text_ok:
  assumes "\<forall>s ps cs ps'. pi s ps = Inr (cs, ps') \<longrightarrow> list_all node_ok cs"
    and "push_text pi nm ls text ast ps = Inr (ls2, text2, ast2, ps2)"
    and "list_all node_ok ast"
  shows "list_all node_ok ast2"
proof -
  let ?text1 = "if nm = ''p'' then butlast text else text"
  show ?thesis
  proof (cases "length ?text1 = 0")
    case True
    then show ?thesis using assms(2,3) by (auto simp: push_text_def Let_def split: if_splits)
  next
    case False
    then obtain cs where "pi (join [CHR 0x0A] ?text1) ps = Inr (cs, ps2)"
      "ast2 = (if nm = ''p'' then ast @ [element ''p'' cs] else ast @ cs)"
      using assms(2) by (auto simp: push_text_def Let_def split: if_splits dest!: bindE_InrD)
    then show ?thesis using assms(1,3) by (auto split: if_splits)
  qed
qed

lemma blocks_loop_ok:
  "blocks_loop E n ls pend acc ps = Inr (ast, ps') \<Longrightarrow> list_all node_ok acc \<Longrightarrow>
   list_all node_ok ast"
proof (induction n arbitrary: ls pend acc ps ast ps')
  case 0
  then show ?case by simp
next
  case (Suc n)
  let ?P = "\<lparr>parse_blocks = (\<lambda>ls' ps'. blocks_loop E n ls' [] [] ps'),
            parse_inline = parse_inline_text E n\<rparr>"
  have pi: "\<forall>s ps cs ps'. parse_inline_text E n s ps = Inr (cs, ps') \<longrightarrow> list_all node_ok cs"
    using parse_inline_text_ok by blast
  have gP: "good_parsers ?P"
    unfolding good_parsers_def using Suc.IH[of _ "[]" "[]"] pi by auto
  show ?case
  proof (cases "length ls > 0")
    case False
    show ?thesis
    proof (cases "length pend > 0")
      case True
      then obtain ls2 text2 ps2 where
        "push_text (parse_inline_text E n) ''textblock'' ls pend acc ps = Inr (ls2, text2, ast, ps2)"
        using Suc.prems(1) False by (auto dest!: bindE_InrD)
      from push_text_ok[OF pi this Suc.prems(2)] show ?thesis .
    next
      case F2: False
      then show ?thesis using Suc.prems False by simp
    qed
  next
    case True
    then obtain node ls1 ps1 where
      t: "try_parsers blockparsers ?P ls ps = Inr (node, ls1, ps1)"
      and k: "(case node of
               Some nd \<Rightarrow>
                 if name nd \<noteq> ''omit'' then
                   bindE (push_text (parse_inline_text E n) ''textblock'' ls1 pend acc ps1)
                     (\<lambda>(ls2, text2, ast2, ps2). blocks_loop E n ls2 text2 (ast2 @ [nd]) ps2)
                 else blocks_loop E n ls1 pend acc ps1
             | None \<Rightarrow>
                 (case ls1 of
                    [] \<Rightarrow> blocks_loop E n [] (pend @ [[]]) acc ps1
                  | l # rest \<Rightarrow>
                      if blankline l then
                        (if length pend > 0 then
                           bindE (push_text (parse_inline_text E n) ''p'' rest (pend @ [l]) acc ps1)
                             (\<lambda>(ls2, text2, ast2, ps2). blocks_loop E n ls2 text2 ast2 ps2)
                         else blocks_loop E n rest pend (acc @ [text_node l]) ps1)
                      else blocks_loop E n rest (pend @ [l]) acc ps1)) = Inr (ast, ps')"
      using Suc.prems(1) by (auto dest!: bindE_InrD)
    show ?thesis
    proof (cases node)
      case (Some nd)
      have bo: "block_ok nd"
        using try_parsers_ok[OF good_blockparsers gP] t Some by blast
      show ?thesis
      proof (cases "name nd \<noteq> ''omit''")
        case True
        then have nok: "node_ok nd" using bo by (auto simp: block_ok_def omit_def)
        from k Some True obtain ls2 text2 ast2 ps2 where
          p: "push_text (parse_inline_text E n) ''textblock'' ls1 pend acc ps1
                = Inr (ls2, text2, ast2, ps2)"
          and b: "blocks_loop E n ls2 text2 (ast2 @ [nd]) ps2 = Inr (ast, ps')"
          by (auto dest!: bindE_InrD)
        from push_text_ok[OF pi p Suc.prems(2)] have "list_all node_ok (ast2 @ [nd])"
          using nok by simp
        from Suc.IH[OF b this] show ?thesis .
      next
        case False
        then have "blocks_loop E n ls1 pend acc ps1 = Inr (ast, ps')" using k Some by simp
        from Suc.IH[OF this Suc.prems(2)] show ?thesis .
      qed
    next
      case None
      show ?thesis
      proof (cases ls1)
        case Nil
        then have "blocks_loop E n [] (pend @ [[]]) acc ps1 = Inr (ast, ps')" using k None by simp
        from Suc.IH[OF this Suc.prems(2)] show ?thesis .
      next
        case (Cons l rest)
        show ?thesis
        proof (cases "blankline l")
          case False
          then have "blocks_loop E n rest (pend @ [l]) acc ps1 = Inr (ast, ps')"
            using k None Cons by simp
          from Suc.IH[OF this Suc.prems(2)] show ?thesis .
        next
          case True
          show ?thesis
          proof (cases "length pend > 0")
            case False
            then have "blocks_loop E n rest pend (acc @ [text_node l]) ps1 = Inr (ast, ps')"
              using k None Cons True by simp
            from Suc.IH[OF this] Suc.prems(2) show ?thesis by simp
          next
            case T2: True
            from k None Cons True T2 obtain ls2 text2 ast2 ps2 where
              p: "push_text (parse_inline_text E n) ''p'' rest (pend @ [l]) acc ps1
                    = Inr (ls2, text2, ast2, ps2)"
              and b: "blocks_loop E n ls2 text2 ast2 ps2 = Inr (ast, ps')"
              by (auto dest!: bindE_InrD)
            from Suc.IH[OF b push_text_ok[OF pi p Suc.prems(2)]] show ?thesis .
          qed
        qed
      qed
    qed
  qed
qed

lemma parse_blocks_at_ok:
  "parse_blocks_at E n ls ps = Inr (ast, ps') \<Longrightarrow> list_all node_ok ast"
  unfolding parse_blocks_at_def using blocks_loop_ok[of E n ls "[]" "[]" ps ast ps'] by simp

lemma update_nid_ok:
  "(\<forall>x. node_ok x \<longrightarrow> node_ok (f x)) \<Longrightarrow> node_ok x \<Longrightarrow> node_ok (update_nid i f x)"
proof (induction i f x rule: update_nid.induct)
  case (1 i f n a c t ty k j)
  show ?case
  proof (cases "j = Some i")
    case True
    then show ?thesis using "1.prems" by simp
  next
    case False
    show ?thesis
    proof (cases c)
      case None
      then show ?thesis using False "1.prems"(2) by simp
    next
      case (Some cs)
      have "list_all node_ok (map (update_nid i f) cs)"
        using "1.IH"[OF False _ _ "1.prems"(1)] "1.prems"(2) Some
        by (auto simp: list_all_iff)
      then show ?thesis using False Some by simp
    qed
  qed
next
  case (2 i f xs)
  then show ?case by (auto simp: list_all_iff)
qed simp_all

lemma update_nid_list_ok:
  "(\<forall>x. node_ok x \<longrightarrow> node_ok (f x)) \<Longrightarrow> list_all node_ok ast \<Longrightarrow>
   list_all node_ok (map (update_nid i f) ast)"
  by (auto simp: list_all_iff intro: update_nid_ok)

lemma resolve_cite_ok: "node_ok x \<Longrightarrow> node_ok (resolve_cite E v x)"
proof (induction E v x rule: resolve_cite.induct)
  case (1 E v n a cn ca cc ct cty ck ci cs t ty k i)
  then show ?case by (cases cc) auto
qed simp_all

lemma resolve_link_ok: "node_ok x \<Longrightarrow> node_ok (resolve_link E defs x)"
proof (induction E defs x rule: resolve_link.induct)
  case (1 E defs n a c t ty k i)
  then show ?case by (cases c) (auto simp: Let_def)
qed simp_all

lemma number_cites_ok:
  "number_cites E cs i tn ast = Inr (i', tn', ast') \<Longrightarrow> list_all node_ok ast \<Longrightarrow>
   list_all node_ok ast'"
proof (induction cs arbitrary: i tn ast)
  case Nil
  then show ?case by simp
next
  case (Cons cite rest)
  from Cons.prems(1) obtain k j where kj: "key cite = Some (VStr k)" "nid cite = Some j"
    by (auto split: option.splits jsval.splits)
  define fresh where "fresh = (\<not> truthy (obj_get VNum tn k))"
  define tn1 where "tn1 = (if fresh then obj_set tn k i else tn)"
  define i1 where "i1 = (if fresh then i + 1 else i)"
  define v where "v = obj_get VNum tn1 k"
  have "number_cites E rest i1 tn1 (map (update_nid j (resolve_cite E v)) ast) = Inr (i', tn', ast')"
    using Cons.prems(1) kj unfolding fresh_def tn1_def i1_def v_def by (simp add: Let_def)
  moreover have "list_all node_ok (map (update_nid j (resolve_cite E v)) ast)"
    using Cons.prems(2) by (intro update_nid_list_ok) (auto intro: resolve_cite_ok)
  ultimately show ?case using Cons.IH by blast
qed

lemma number_items_ok:
  "number_items i cs = Inr cs' \<Longrightarrow> list_all node_ok cs \<Longrightarrow> list_all node_ok cs'"
proof (induction i cs arbitrary: cs' rule: number_items.induct)
  case (1 i)
  then show ?case by simp
next
  case (2 i cs)
  then show ?case by simp
qed (auto simp del: set_attributes.simps dest!: bindE_InrD)

lemma footnote_def_postprocess_ok:
  assumes "\<forall>ls ps cs ps'. pb ls ps = Inr (cs, ps') \<longrightarrow> list_all node_ok cs"
    and "footnote_def_postprocess E pb ast ps = Inr (ast', ps')"
    and "list_all node_ok ast"
  shows "list_all node_ok ast'"
proof -
  from assms(2) obtain i tn ast1 def_lines defs ps1 where
    n: "number_cites E (cites ps) 1 [] ast = Inr (i, tn, ast1)"
    and p: "pb def_lines ps = Inr (defs, ps1)"
    and k: "(case defs of
         [] \<Rightarrow> Inr (ast1, ps1)
       | d # ds \<Rightarrow>
           (case d of
              Node n a (Some cs) t ty k j \<Rightarrow>
                bindE (number_items 0 cs) (\<lambda>cs'.
                  Inr (ast1 @ [Node ''div'' (Some [(''class'', VStr ''footnotes'')])
                                  (Some [Arr (Node n a (Some cs') t ty k j # ds)])
                                  None None None None],
                       ps1))
            | _ \<Rightarrow> Inl TypeError)) = Inr (ast', ps')"
    unfolding footnote_def_postprocess_def by (auto dest!: bindE_InrD)
  have a1: "list_all node_ok ast1" using number_cites_ok[OF n assms(3)] .
  have d: "list_all node_ok defs" using assms(1) p by blast
  show ?thesis
  proof (cases defs)
    case Nil
    then show ?thesis using k a1 by simp
  next
    case (Cons d ds)
    then obtain n a cs t ty kk j cs' where
      dd: "d = Node n a (Some cs) t ty kk j" "number_items 0 cs = Inr cs'"
      "ast' = ast1 @ [Node ''div'' (Some [(''class'', VStr ''footnotes'')])
                                  (Some [Arr (Node n a (Some cs') t ty kk j # ds)])
                                  None None None None]"
      using k by (auto split: ast.splits option.splits dest!: bindE_InrD)
    have "list_all node_ok cs" "list_all node_ok ds" using d Cons dd(1) by auto
    then show ?thesis using number_items_ok[OF dd(2)] dd(3) a1 by simp
  qed
qed

lemma href_def_postprocess_ok:
  "list_all node_ok ast \<Longrightarrow> list_all node_ok (href_def_postprocess E defs ls ast)"
proof (induction ls arbitrary: ast)
  case Nil
  then show ?case by simp
next
  case (Cons node rest)
  show ?case
  proof (cases "nid node")
    case None
    then show ?thesis using Cons by simp
  next
    case (Some j)
    have "list_all node_ok (map (update_nid j (resolve_link E defs)) ast)"
      using Cons.prems by (intro update_nid_list_ok) (auto intro: resolve_link_ok)
    then show ?thesis using Cons.IH Some by simp
  qed
qed

text \<open>
  Claim C5, as amended. The tree that \<^verbatim>\<open>scratchmark\<close> hands to the printer is the result
  of \<open>parse_document\<close>. Every node in it, at any depth, has a \<^verbatim>\<open>children\<close> field or a
  \<^verbatim>\<open>text\<close> field, unless it is named \<^verbatim>\<open>hr\<close> or \<^verbatim>\<open>img\<close>; an empty \<^verbatim>\<open>children\<close> array
  counts as a field.
\<close>

theorem parsed_nodes_have_content:
  assumes "parse_document E n doc = Inr (ast, ps)"
  shows "list_all node_ok ast"
proof -
  from assms obtain ast0 ps0 ast1 where
    b: "parse_blocks_at E n (normalize doc) init = Inr (ast0, ps0)"
    and f: "footnote_def_postprocess E (parse_blocks_at E n) ast0 ps0 = Inr (ast1, ps)"
    and h: "ast = href_def_postprocess E (href_defs ps) (links ps) ast1"
    unfolding parse_document_def by (auto dest!: bindE_InrD)
  have "list_all node_ok ast0" using parse_blocks_at_ok[OF b] .
  moreover have "\<forall>ls ps cs ps'. parse_blocks_at E n ls ps = Inr (cs, ps') \<longrightarrow> list_all node_ok cs"
    using parse_blocks_at_ok by blast
  ultimately have "list_all node_ok ast1" using footnote_def_postprocess_ok[OF _ f] by blast
  then show ?thesis unfolding h by (rule href_def_postprocess_ok)
qed

theorem parsed_nodes_have_content_witness:
  "parse_document example_engine 8 (''# Title'' @ [CHR 0x0A] @ ''---'' @ [CHR 0x0A] @ ''* an ![i](p)'')
     = Inr ([Node ''h1'' None
               (Some [Node ''text'' None None (Some ''Title'') (Some ''inline'') None None])
               None None None None,
             Node ''hr'' None None None None None None,
             Node ''ul'' (Some [(''class'', VStr ''star-list'')])
               (Some [Node ''li'' None
                        (Some [Node ''text'' None None (Some ''an '') (Some ''inline'') None None,
                               Node ''img'' (Some [(''src'', VStr ''p''), (''alt'', VStr ''i'')])
                                 None None (Some ''inline'') None (Some 0)])
                        None None None None])
               None None None None],
            \<lparr>fn_defs = [], cites = [], href_defs = [],
               links = [Node ''img'' (Some [(''src'', VStr ''p''), (''alt'', VStr ''i'')])
                          None None None None (Some 0)],
               config = [], next_id = 1\<rparr>)
   \<and> list_all node_ok
         [Node ''h1'' None
            (Some [Node ''text'' None None (Some ''Title'') (Some ''inline'') None None])
            None None None None,
          Node ''hr'' None None None None None None,
          Node ''ul'' (Some [(''class'', VStr ''star-list'')])
            (Some [Node ''li'' None
                     (Some [Node ''text'' None None (Some ''an '') (Some ''inline'') None None,
                            Node ''img'' (Some [(''src'', VStr ''p''), (''alt'', VStr ''i'')])
                              None None (Some ''inline'') None (Some 0)])
                     None None None None])
            None None None None]"
proof -
  have e: "parse_document example_engine 8 (''# Title'' @ [CHR 0x0A] @ ''---'' @ [CHR 0x0A] @ ''* an ![i](p)'')
     = Inr ([Node ''h1'' None
               (Some [Node ''text'' None None (Some ''Title'') (Some ''inline'') None None])
               None None None None,
             Node ''hr'' None None None None None None,
             Node ''ul'' (Some [(''class'', VStr ''star-list'')])
               (Some [Node ''li'' None
                        (Some [Node ''text'' None None (Some ''an '') (Some ''inline'') None None,
                               Node ''img'' (Some [(''src'', VStr ''p''), (''alt'', VStr ''i'')])
                                 None None (Some ''inline'') None (Some 0)])
                        None None None None])
               None None None None],
            \<lparr>fn_defs = [], cites = [], href_defs = [],
               links = [Node ''img'' (Some [(''src'', VStr ''p''), (''alt'', VStr ''i'')])
                          None None None None (Some 0)],
               config = [], next_id = 1\<rparr>)"
    by (simp add: run post pr trim_def)
  from parsed_nodes_have_content[OF e] e show ?thesis by (intro conjI)
qed

end
